theory Spec2Isabelle
  imports
    Main
    "HOL-Library.Char_ord"
    "HOL-Library.List_Lexorder"
    "HOL-Library.AList"
    "HOL-Library.Sublist"
begin

section \<open>Dormant users: data model\<close>

text \<open>
  The program (\<^verbatim>\<open>src/dormant_users.py\<close>) audits GitHub organisations: it pages through
  GraphQL connections, keeps for every login the latest timestamp seen, and writes one
  CSV report per organisation.

  Strings are Python \<^verbatim>\<open>str\<close> values, modelled as \<^typ>\<open>string\<close>. Python compares
  strings lexicographically by code point, a proper prefix being smaller; this is the order
  of \<^theory_text>\<open>List_Lexorder\<close> over \<^theory_text>\<open>Char_ord\<close>. Timestamps are never parsed while
  they are merged: \<^verbatim>\<open>activity[login] < date\<close> is a comparison of strings.
\<close>

type_synonym login = string
type_synonym timestamp = string

text \<open>
  A \<^verbatim>\<open>dict[str, str]\<close> keeps its keys in insertion order, and the report iterates over
  \<^verbatim>\<open>overall_activity.items()\<close>, so the dictionary is an association list in insertion
  order. \<^verbatim>\<open>d[k] = v\<close> is \<^const>\<open>AList.update\<close>: an existing key keeps its place, a new key
  goes to the end. \<^verbatim>\<open>k in d\<close> and \<^verbatim>\<open>d[k]\<close> are \<^const>\<open>map_of\<close>. A dictionary has no
  repeated key: \<^term>\<open>distinct (map fst d)\<close>.
\<close>

type_synonym activity = "(login \<times> timestamp) list"

text \<open>
  Lines 116-117, 136-137, 157-158 and 198-199, the same two lines each time:
  \<^verbatim>\<open>if login not in activity or activity[login] < date: activity[login] = date\<close>.
\<close>

definition keep_latest :: "login \<Rightarrow> timestamp \<Rightarrow> activity \<Rightarrow> activity" where
  "keep_latest login date activity =
     (case map_of activity login of
        None \<Rightarrow> AList.update login date activity
      | Some seen \<Rightarrow> if seen < date then AList.update login date activity else activity)"

text \<open>
  Lines 197-199, the merge of a branch's mapping into the organisation's:
  \<^verbatim>\<open>for user, date in act.items(): if user not in overall_activity or ...\<close>.
  The first argument is the mapping merged into, the second the mapping read.
\<close>

definition merge :: "activity \<Rightarrow> activity \<Rightarrow> activity" where
  "merge overall_activity act = fold (\<lambda>(user, date). keep_latest user date) act overall_activity"

text \<open>The later of the timestamps two mappings hold for a login, when either holds one.\<close>

fun latest :: "timestamp option \<Rightarrow> timestamp option \<Rightarrow> timestamp option" where
  "latest None b = b"
| "latest (Some a) None = Some a"
| "latest (Some a) (Some b) = Some (max a b)"

section \<open>The GraphQL endpoint\<close>

text \<open>
  Every request goes through \<^verbatim>\<open>run_query\<close>, with a query text and a dictionary of
  variables. All variables of the program are strings, but \<^verbatim>\<open>cursor\<close>, which is
  \<^verbatim>\<open>None\<close> on the first call of a traversal and the page's \<^verbatim>\<open>endCursor\<close> afterwards.
\<close>

type_synonym cursor = "string option"

datatype request = Request (query_of: string) (variables_of: "(string \<times> string option) list")

text \<open>
  What a response holds, as far as the program reads it. A connection gives its nodes and
  its \<^verbatim>\<open>pageInfo\<close>. A commit node carries \<^verbatim>\<open>author { user { login }, date }\<close>, where
  \<^verbatim>\<open>user\<close> is null for an author without an account; an issue or pull request carries
  \<^verbatim>\<open>author { login }, updatedAt\<close>, where \<^verbatim>\<open>author\<close> is null for a deleted account.
  For the commit query, \<^verbatim>\<open>ref\<close> is null for a name that is no branch, and
  \<^verbatim>\<open>target\<close> is null or empty when the branch points at no commit.
\<close>

datatype page_info = PageInfo (hasNextPage: bool) (endCursor: cursor)

datatype commit_node = CommitNode "login option" timestamp

datatype authored_node = AuthoredNode "login option" timestamp

datatype history = History "commit_node list" page_info

datatype git_ref = Ref "history option"

datatype data =
    MembersWithRole "login list" page_info
  | Repositories "string list" page_info
  | Refs "string list" page_info
  | RepositoryRef "git_ref option"
  | Issues "authored_node list" page_info
  | PullRequests "authored_node list" page_info

text \<open>
  A response either has a bad status (\<^verbatim>\<open>raise_for_status\<close> raises), or carries an
  \<^verbatim>\<open>errors\<close> member (\<^verbatim>\<open>run_query\<close> prints it and raises), or is data.
\<close>

datatype response = BadStatus | Errors | Data data

text \<open>
  The exceptions of the program, all of them subclasses of \<^verbatim>\<open>Exception\<close>:
  \<^verbatim>\<open>HTTPError\<close> from \<^verbatim>\<open>raise_for_status\<close>, the \<^verbatim>\<open>Exception\<close> of line 26,
  \<^verbatim>\<open>KeyError\<close> when a response is not of the shape the caller subscripts, and
  \<^verbatim>\<open>ValueError\<close> from \<^verbatim>\<open>strptime\<close>.
\<close>

datatype error = HTTPError | GraphQLError | KeyError | ValueError

text \<open>The lines the program prints, in the order of the source.\<close>

datatype event =
    GraphQLErrorResponse
  | PleaseSetOrgNames
  | FetchingRepos string
  | SkippingOrg string error
  | TotalRepositories string nat
  | RepoProgress nat nat string
  | NoBranches
  | Branch string
  | SkippingBranch string error
  | ErrorOnRepo string error
  | Sleeping
  | FetchingMembers
  | WritingCSV string
  | DoneWith string

text \<open>
  The world the program runs in. \<^verbatim>\<open>pending\<close> are the responses the endpoint will give,
  in the order they arrive: the program is sequential and deterministic, so a run is
  decided by this sequence, whatever the endpoint computes it from. \<^verbatim>\<open>sent\<close> are the
  requests posted so far, \<^verbatim>\<open>console\<close> the lines printed, \<^verbatim>\<open>files\<close> the files written,
  each with the rows given to \<^verbatim>\<open>csv.writer.writerow\<close>.

  A call that finds \<^verbatim>\<open>pending\<close> empty has no answer in the model: the result is
  \<^term>\<open>None\<close>, which is not an exception and is caught by no handler. The loops below
  end on every finite sequence of responses; a run that would go on for ever is
  \<^term>\<open>None\<close> on each of them.
\<close>

record world =
  pending :: "response list"
  sent :: "request list"
  console :: "event list"
  files :: "(string \<times> string list list) list"

type_synonym 'a run = "world \<Rightarrow> ((error + 'a) \<times> world) option"

definition print :: "event \<Rightarrow> world \<Rightarrow> world" where
  "print line w = w\<lparr>console := console w @ [line]\<rparr>"

text \<open>Lines 19-27.\<close>

definition run_query :: "string \<Rightarrow> (string \<times> string option) list \<Rightarrow> data run" where
  "run_query query variables w =
     (case pending w of
        [] \<Rightarrow> None
      | resp # rest \<Rightarrow>
          (let w' = w\<lparr>pending := rest, sent := sent w @ [Request query variables]\<rparr> in
           case resp of
             BadStatus \<Rightarrow> Some (Inl HTTPError, w')
           | Errors \<Rightarrow> Some (Inl GraphQLError, print GraphQLErrorResponse w')
           | Data data \<Rightarrow> Some (Inr data, w')))"

subsection \<open>Members, repositories, branches\<close>

definition members_query :: string where
  "members_query =
     ''\<newline>'' @
     ''    query($org: String!, $cursor: String) {\<newline>'' @
     ''      organization(login: $org) {\<newline>'' @
     ''        membersWithRole(first: 100, after: $cursor) {\<newline>'' @
     ''          nodes { login }\<newline>'' @
     ''          pageInfo { hasNextPage endCursor }\<newline>'' @
     ''        }\<newline>'' @
     ''      }\<newline>'' @
     ''    }\<newline>'' @
     ''    ''"

definition repositories_query :: string where
  "repositories_query =
     ''\<newline>'' @
     ''    query($org: String!, $cursor: String) {\<newline>'' @
     ''      organization(login: $org) {\<newline>'' @
     ''        repositories(first: 100, after: $cursor) {\<newline>'' @
     ''          nodes { name }\<newline>'' @
     ''          pageInfo { hasNextPage endCursor }\<newline>'' @
     ''        }\<newline>'' @
     ''      }\<newline>'' @
     ''    }\<newline>'' @
     ''    ''"

definition branches_query :: string where
  "branches_query =
     ''\<newline>'' @
     ''    query($org: String!, $repo: String!, $cursor: String) {\<newline>'' @
     ''      repository(owner: $org, name: $repo) {\<newline>'' @
     ''        refs(refPrefix: \"refs/heads/\", first: 100, after: $cursor) {\<newline>'' @
     ''          nodes { name }\<newline>'' @
     ''          pageInfo { hasNextPage endCursor }\<newline>'' @
     ''        }\<newline>'' @
     ''      }\<newline>'' @
     ''    }\<newline>'' @
     ''    ''"

text \<open>
  Lines 42-48, the \<^verbatim>\<open>while has_next\<close> of \<^verbatim>\<open>get_all_org_members_for_org\<close>, entered
  with \<^verbatim>\<open>has_next\<close> true: the body runs before the flag is read again.
\<close>

function members_while :: "string \<Rightarrow> cursor \<Rightarrow> login list \<Rightarrow> login list run" where
  "members_while org cursor members w =
     (case run_query members_query [(''org'', Some org), (''cursor'', cursor)] w of
        None \<Rightarrow> None
      | Some (Inl e, w') \<Rightarrow> Some (Inl e, w')
      | Some (Inr data, w') \<Rightarrow>
          (case data of
             MembersWithRole nodes page \<Rightarrow>
               if hasNextPage page
               then members_while org (endCursor page) (members @ nodes) w'
               else Some (Inr (members @ nodes), w')
           | _ \<Rightarrow> Some (Inl KeyError, w')))"
  by pat_completeness auto
termination
  by (relation "measure (\<lambda>(org, cursor, members, w). length (pending w))")
    (auto simp: run_query_def print_def Let_def split: list.splits response.splits)

declare members_while.simps [simp del]

text \<open>Lines 29-49.\<close>

definition get_all_org_members_for_org :: "string \<Rightarrow> login list run" where
  "get_all_org_members_for_org org = members_while org None []"

text \<open>Lines 63-67.\<close>

function repositories_while :: "string \<Rightarrow> cursor \<Rightarrow> string list \<Rightarrow> string list run" where
  "repositories_while org cursor repos w =
     (case run_query repositories_query [(''org'', Some org), (''cursor'', cursor)] w of
        None \<Rightarrow> None
      | Some (Inl e, w') \<Rightarrow> Some (Inl e, w')
      | Some (Inr data, w') \<Rightarrow>
          (case data of
             Repositories nodes page \<Rightarrow>
               if hasNextPage page
               then repositories_while org (endCursor page) (repos @ nodes) w'
               else Some (Inr (repos @ nodes), w')
           | _ \<Rightarrow> Some (Inl KeyError, w')))"
  by pat_completeness auto
termination
  by (relation "measure (\<lambda>(org, cursor, repos, w). length (pending w))")
    (auto simp: run_query_def print_def Let_def split: list.splits response.splits)

declare repositories_while.simps [simp del]

text \<open>Lines 51-68.\<close>

definition get_repositories_for_org :: "string \<Rightarrow> string list run" where
  "get_repositories_for_org org = repositories_while org None []"

text \<open>Lines 82-87.\<close>

function branches_while :: "string \<Rightarrow> string \<Rightarrow> cursor \<Rightarrow> string list \<Rightarrow> string list run" where
  "branches_while repo org cursor branches w =
     (case run_query branches_query
             [(''org'', Some org), (''repo'', Some repo), (''cursor'', cursor)] w of
        None \<Rightarrow> None
      | Some (Inl e, w') \<Rightarrow> Some (Inl e, w')
      | Some (Inr data, w') \<Rightarrow>
          (case data of
             Refs nodes page \<Rightarrow>
               if hasNextPage page
               then branches_while repo org (endCursor page) (branches @ nodes) w'
               else Some (Inr (branches @ nodes), w')
           | _ \<Rightarrow> Some (Inl KeyError, w')))"
  by pat_completeness auto
termination
  by (relation "measure (\<lambda>(repo, org, cursor, branches, w). length (pending w))")
    (auto simp: run_query_def print_def Let_def split: list.splits response.splits)

declare branches_while.simps [simp del]

text \<open>Lines 70-88.\<close>

definition get_all_branches :: "string \<Rightarrow> string \<Rightarrow> string list run" where
  "get_all_branches repo org = branches_while repo org None []"

subsection \<open>Branch activity\<close>

definition q_commits :: string where
  "q_commits =
     ''\<newline>'' @
     ''    query($owner: String!, $name: String!, $branch: String!, $since: GitTimestamp!, $cursor: String) {\<newline>'' @
     ''      repository(owner: $owner, name: $name) {\<newline>'' @
     ''        ref(qualifiedName: $branch) {\<newline>'' @
     ''          target { ... on Commit { history(first: 100, after: $cursor, since: $since) {\<newline>'' @
     ''            nodes { author { user { login }, date } }\<newline>'' @
     ''            pageInfo { hasNextPage endCursor }\<newline>'' @
     ''          }}}\<newline>'' @
     ''        }\<newline>'' @
     ''      }\<newline>'' @
     ''    }\<newline>'' @
     ''    ''"

definition q_issues :: string where
  "q_issues =
     ''\<newline>'' @
     ''    query($owner: String!, $name: String!, $cursor: String) {\<newline>'' @
     ''      repository(owner: $owner, name: $name) {\<newline>'' @
     ''        issues(first: 100, after: $cursor, orderBy: {field: UPDATED_AT, direction: DESC}) {\<newline>'' @
     ''          nodes { author { login }, updatedAt }\<newline>'' @
     ''          pageInfo { hasNextPage endCursor }\<newline>'' @
     ''        }\<newline>'' @
     ''      }\<newline>'' @
     ''    }\<newline>'' @
     ''    ''"

definition q_prs :: string where
  "q_prs =
     ''\<newline>'' @
     ''    query($owner: String!, $name: String!, $cursor: String) {\<newline>'' @
     ''      repository(owner: $owner, name: $name) {\<newline>'' @
     ''        pullRequests(states: [OPEN, CLOSED, MERGED], orderBy: {field: UPDATED_AT, direction: DESC}, first: 100, after: $cursor) {\<newline>'' @
     ''          nodes { author { login }, updatedAt }\<newline>'' @
     ''          pageInfo { hasNextPage endCursor }\<newline>'' @
     ''        }\<newline>'' @
     ''      }\<newline>'' @
     ''    }\<newline>'' @
     ''    ''"

text \<open>
  Lines 113-117, the body of \<^verbatim>\<open>for node in hist["nodes"]\<close>: a commit whose author has
  no user is passed over.
\<close>

fun commit_activity :: "commit_node \<Rightarrow> activity \<Rightarrow> activity" where
  "commit_activity (CommitNode None date) activity = activity"
| "commit_activity (CommitNode (Some login) date) activity = keep_latest login date activity"

text \<open>
  Lines 134-137 and 155-158, the bodies of the loops over issues and over pull requests:
  a node without author is passed over.
\<close>

fun authored_activity :: "authored_node \<Rightarrow> activity \<Rightarrow> activity" where
  "authored_activity (AuthoredNode None updatedAt) activity = activity"
| "authored_activity (AuthoredNode (Some login) updatedAt) activity =
     keep_latest login updatedAt activity"

text \<open>
  Lines 105-118. \<^verbatim>\<open>data["data"]["repository"].get("ref")\<close> is \<^verbatim>\<open>None\<close> when the repository
  object has no \<^verbatim>\<open>ref\<close> member, so a response of another repository query leaves the
  loop as a null \<^verbatim>\<open>ref\<close> does, by the \<^verbatim>\<open>break\<close> of line 110; a response without
  \<^verbatim>\<open>repository\<close> raises \<^verbatim>\<open>KeyError\<close>.
\<close>

function commits_while ::
  "string \<Rightarrow> string \<Rightarrow> string \<Rightarrow> string \<Rightarrow> cursor \<Rightarrow> activity \<Rightarrow> activity run" where
  "commits_while org repo branch since_iso cursor activity w =
     (case run_query q_commits
             [(''owner'', Some org), (''name'', Some repo), (''branch'', Some branch),
              (''since'', Some since_iso), (''cursor'', cursor)] w of
        None \<Rightarrow> None
      | Some (Inl e, w') \<Rightarrow> Some (Inl e, w')
      | Some (Inr data, w') \<Rightarrow>
          (case data of
             RepositoryRef None \<Rightarrow> Some (Inr activity, w')
           | RepositoryRef (Some (Ref None)) \<Rightarrow> Some (Inr activity, w')
           | RepositoryRef (Some (Ref (Some (History nodes page)))) \<Rightarrow>
               if hasNextPage page
               then commits_while org repo branch since_iso (endCursor page)
                      (fold commit_activity nodes activity) w'
               else Some (Inr (fold commit_activity nodes activity), w')
           | Refs _ _ \<Rightarrow> Some (Inr activity, w')
           | Issues _ _ \<Rightarrow> Some (Inr activity, w')
           | PullRequests _ _ \<Rightarrow> Some (Inr activity, w')
           | MembersWithRole _ _ \<Rightarrow> Some (Inl KeyError, w')
           | Repositories _ _ \<Rightarrow> Some (Inl KeyError, w')))"
  by pat_completeness auto
termination
  by (relation "measure (\<lambda>(org, repo, branch, since_iso, cursor, activity, w). length (pending w))")
    (auto simp: run_query_def print_def Let_def split: list.splits response.splits)

declare commits_while.simps [simp del]

text \<open>Lines 130-139.\<close>

function issues_while :: "string \<Rightarrow> string \<Rightarrow> cursor \<Rightarrow> activity \<Rightarrow> activity run" where
  "issues_while org repo cursor activity w =
     (case run_query q_issues
             [(''owner'', Some org), (''name'', Some repo), (''cursor'', cursor)] w of
        None \<Rightarrow> None
      | Some (Inl e, w') \<Rightarrow> Some (Inl e, w')
      | Some (Inr data, w') \<Rightarrow>
          (case data of
             Issues nodes page \<Rightarrow>
               if hasNextPage page
               then issues_while org repo (endCursor page)
                      (fold authored_activity nodes activity) w'
               else Some (Inr (fold authored_activity nodes activity), w')
           | _ \<Rightarrow> Some (Inl KeyError, w')))"
  by pat_completeness auto
termination
  by (relation "measure (\<lambda>(org, repo, cursor, activity, w). length (pending w))")
    (auto simp: run_query_def print_def Let_def split: list.splits response.splits)

declare issues_while.simps [simp del]

text \<open>Lines 151-160.\<close>

function prs_while :: "string \<Rightarrow> string \<Rightarrow> cursor \<Rightarrow> activity \<Rightarrow> activity run" where
  "prs_while org repo cursor activity w =
     (case run_query q_prs
             [(''owner'', Some org), (''name'', Some repo), (''cursor'', cursor)] w of
        None \<Rightarrow> None
      | Some (Inl e, w') \<Rightarrow> Some (Inl e, w')
      | Some (Inr data, w') \<Rightarrow>
          (case data of
             PullRequests nodes page \<Rightarrow>
               if hasNextPage page
               then prs_while org repo (endCursor page)
                      (fold authored_activity nodes activity) w'
               else Some (Inr (fold authored_activity nodes activity), w')
           | _ \<Rightarrow> Some (Inl KeyError, w')))"
  by pat_completeness auto
termination
  by (relation "measure (\<lambda>(org, repo, cursor, activity, w). length (pending w))")
    (auto simp: run_query_def print_def Let_def split: list.splits response.splits)

declare prs_while.simps [simp del]

text \<open>
  Lines 90-162: the three loops in turn on one local \<^verbatim>\<open>activity\<close>, which starts empty.
  An exception leaves the function at once, and the local mapping is lost.
\<close>

definition collect_branch_activity ::
  "string \<Rightarrow> string \<Rightarrow> string \<Rightarrow> string \<Rightarrow> activity run" where
  "collect_branch_activity org repo branch since_iso w =
     (case commits_while org repo branch since_iso None [] w of
        None \<Rightarrow> None
      | Some (Inl e, w1) \<Rightarrow> Some (Inl e, w1)
      | Some (Inr activity, w1) \<Rightarrow>
          (case issues_while org repo None activity w1 of
             None \<Rightarrow> None
           | Some (Inl e, w2) \<Rightarrow> Some (Inl e, w2)
           | Some (Inr activity, w2) \<Rightarrow> prs_while org repo None activity w2))"

section \<open>Dates\<close>

text \<open>
  A \<^verbatim>\<open>datetime\<close> in UTC. The program builds its datetimes with
  \<^verbatim>\<open>datetime.now(timezone.utc)\<close> and \<^verbatim>\<open>.replace(tzinfo=timezone.utc)\<close>, so all of them
  carry the same \<^verbatim>\<open>tzinfo\<close>, and Python compares two such values field by field, from
  the year to the microsecond.
\<close>

record datetime =
  year :: nat
  month :: nat
  day :: nat
  hour :: nat
  minute :: nat
  second :: nat
  microsecond :: nat

definition datetime_fields :: "datetime \<Rightarrow> nat list" where
  "datetime_fields dt =
     [year dt, month dt, day dt, hour dt, minute dt, second dt, microsecond dt]"

text \<open>\<^verbatim>\<open>a >= b\<close> on datetimes.\<close>

definition datetime_ge :: "datetime \<Rightarrow> datetime \<Rightarrow> bool" where
  "datetime_ge a b = (datetime_fields b \<le> datetime_fields a)"

definition is_digit :: "char \<Rightarrow> bool" where
  "is_digit c = (CHR ''0'' \<le> c \<and> c \<le> CHR ''9'')"

definition in_range :: "char \<Rightarrow> char \<Rightarrow> char \<Rightarrow> bool" where
  "in_range lo hi c = (lo \<le> c \<and> c \<le> hi)"

definition digit_val :: "char \<Rightarrow> nat" where
  "digit_val c = of_char c - of_char CHR ''0''"

definition digit_char :: "nat \<Rightarrow> char" where
  "digit_char n = char_of (of_char CHR ''0'' + n)"

text \<open>\<^verbatim>\<open>int(s)\<close> on a string of digits; leading blanks are skipped, as \<^verbatim>\<open>int\<close> does.\<close>

definition int_of_str :: "string \<Rightarrow> nat" where
  "int_of_str s = foldl (\<lambda>n c. 10 * n + digit_val c) 0 (dropWhile (\<lambda>c. c = CHR '' '') s)"

text \<open>
  The regular expressions \<^verbatim>\<open>_strptime\<close> compiles for the directives of the format
  \<^verbatim>\<open>"%Y-%m-%dT%H:%M:%S"\<close>, each as the set of strings it matches:
  \<^verbatim>\<open>%Y\<close> is \<^verbatim>\<open>\d\d\d\d\<close>, \<^verbatim>\<open>%m\<close> is \<^verbatim>\<open>1[0-2]|0[1-9]|[1-9]\<close>,
  \<^verbatim>\<open>%d\<close> is \<^verbatim>\<open>3[0-1]|[1-2]\d|0[1-9]|[1-9]| [1-9]\<close>, \<^verbatim>\<open>%H\<close> is \<^verbatim>\<open>2[0-3]|[0-1]\d|\d\<close>,
  \<^verbatim>\<open>%M\<close> is \<^verbatim>\<open>[0-5]\d|\d\<close> and \<^verbatim>\<open>%S\<close> is \<^verbatim>\<open>6[0-1]|[0-5]\d|\d\<close>. Characters
  are code points below 256, where \<^verbatim>\<open>\d\<close> matches the ten ASCII digits only.
\<close>

fun re_Y :: "string \<Rightarrow> bool" where
  "re_Y [a, b, c, d] = (is_digit a \<and> is_digit b \<and> is_digit c \<and> is_digit d)"
| "re_Y _ = False"

fun re_m :: "string \<Rightarrow> bool" where
  "re_m [a, b] = (a = CHR ''1'' \<and> in_range CHR ''0'' CHR ''2'' b \<or>
                  a = CHR ''0'' \<and> in_range CHR ''1'' CHR ''9'' b)"
| "re_m [a] = in_range CHR ''1'' CHR ''9'' a"
| "re_m _ = False"

fun re_d :: "string \<Rightarrow> bool" where
  "re_d [a, b] = (a = CHR ''3'' \<and> in_range CHR ''0'' CHR ''1'' b \<or>
                  in_range CHR ''1'' CHR ''2'' a \<and> is_digit b \<or>
                  a = CHR ''0'' \<and> in_range CHR ''1'' CHR ''9'' b \<or>
                  a = CHR '' '' \<and> in_range CHR ''1'' CHR ''9'' b)"
| "re_d [a] = in_range CHR ''1'' CHR ''9'' a"
| "re_d _ = False"

fun re_H :: "string \<Rightarrow> bool" where
  "re_H [a, b] = (a = CHR ''2'' \<and> in_range CHR ''0'' CHR ''3'' b \<or>
                  in_range CHR ''0'' CHR ''1'' a \<and> is_digit b)"
| "re_H [a] = is_digit a"
| "re_H _ = False"

fun re_M :: "string \<Rightarrow> bool" where
  "re_M [a, b] = (in_range CHR ''0'' CHR ''5'' a \<and> is_digit b)"
| "re_M [a] = is_digit a"
| "re_M _ = False"

fun re_S :: "string \<Rightarrow> bool" where
  "re_S [a, b] = (a = CHR ''6'' \<and> in_range CHR ''0'' CHR ''1'' b \<or>
                  in_range CHR ''0'' CHR ''5'' a \<and> is_digit b)"
| "re_S [a] = is_digit a"
| "re_S _ = False"

text \<open>
  The text before the first separator and the text after it. No directive of the format
  matches a separator, so a field ends at the first separator that follows it.
\<close>

fun split_at :: "(char \<Rightarrow> bool) \<Rightarrow> string \<Rightarrow> (string \<times> string) option" where
  "split_at sep [] = None"
| "split_at sep (c # cs) =
     (if sep c then Some ([], cs)
      else case split_at sep cs of None \<Rightarrow> None | Some (field, rest) \<Rightarrow> Some (c # field, rest))"

definition is_leap :: "nat \<Rightarrow> bool" where
  "is_leap y = (y mod 4 = 0 \<and> (y mod 100 \<noteq> 0 \<or> y mod 400 = 0))"

definition days_in_month :: "nat \<Rightarrow> nat \<Rightarrow> nat" where
  "days_in_month y m =
     (if m = 2 then (if is_leap y then 29 else 28)
      else if m = 4 \<or> m = 6 \<or> m = 9 \<or> m = 11 then 30 else 31)"

text \<open>
  \<^verbatim>\<open>datetime.strptime(s, "%Y-%m-%dT%H:%M:%S")\<close>. The pattern is compiled with
  \<^verbatim>\<open>IGNORECASE\<close>, so the letter between date and time may be of either case. The whole
  string has to match. The fields are then given to \<^verbatim>\<open>datetime(...)\<close>, which refuses
  the year 0, a day the month does not have, and the seconds 60 and 61 that \<^verbatim>\<open>%S\<close>
  lets through. Every failure is a \<^verbatim>\<open>ValueError\<close>.
\<close>

definition strptime :: "string \<Rightarrow> error + datetime" where
  "strptime s =
     (case split_at (\<lambda>c. c = CHR ''-'') s of
        None \<Rightarrow> Inl ValueError
      | Some (Y, s1) \<Rightarrow>
     (case split_at (\<lambda>c. c = CHR ''-'') s1 of
        None \<Rightarrow> Inl ValueError
      | Some (m, s2) \<Rightarrow>
     (case split_at (\<lambda>c. c = CHR ''T'' \<or> c = CHR ''t'') s2 of
        None \<Rightarrow> Inl ValueError
      | Some (d, s3) \<Rightarrow>
     (case split_at (\<lambda>c. c = CHR '':'') s3 of
        None \<Rightarrow> Inl ValueError
      | Some (H, s4) \<Rightarrow>
     (case split_at (\<lambda>c. c = CHR '':'') s4 of
        None \<Rightarrow> Inl ValueError
      | Some (M, S) \<Rightarrow>
          if re_Y Y \<and> re_m m \<and> re_d d \<and> re_H H \<and> re_M M \<and> re_S S \<and>
             1 \<le> int_of_str Y \<and> int_of_str d \<le> days_in_month (int_of_str Y) (int_of_str m) \<and>
             int_of_str S \<le> 59
          then Inr \<lparr>year = int_of_str Y, month = int_of_str m, day = int_of_str d,
                    hour = int_of_str H, minute = int_of_str M, second = int_of_str S,
                    microsecond = 0\<rparr>
          else Inl ValueError)))))"

text \<open>A number in decimal, and in decimal filled with zeros to a width.\<close>

fun decimal :: "nat \<Rightarrow> string" where
  "decimal n = (if n < 10 then [digit_char n] else decimal (n div 10) @ [digit_char (n mod 10)])"

declare decimal.simps [simp del]

definition zfill :: "nat \<Rightarrow> string \<Rightarrow> string" where
  "zfill width s = replicate (width - length s) CHR ''0'' @ s"

text \<open>
  \<^verbatim>\<open>dt.strftime("%d-%m-%Y")\<close>: day and month on two digits. \<^verbatim>\<open>%Y\<close> is the year as the
  C library prints it, which is the same on every platform from the year 1000 on; below,
  the model takes glibc's form, without leading zeros.
\<close>

definition strftime_dmY :: "datetime \<Rightarrow> string" where
  "strftime_dmY dt =
     zfill 2 (decimal (day dt)) @ ''-'' @ zfill 2 (decimal (month dt)) @ ''-'' @ decimal (year dt)"

text \<open>\<^verbatim>\<open>dt.strftime('%Y%m%d_%H%M%S')\<close>, of line 214.\<close>

definition strftime_stamp :: "datetime \<Rightarrow> string" where
  "strftime_stamp dt =
     decimal (year dt) @ zfill 2 (decimal (month dt)) @ zfill 2 (decimal (day dt)) @ ''_'' @
     zfill 2 (decimal (hour dt)) @ zfill 2 (decimal (minute dt)) @ zfill 2 (decimal (second dt))"

text \<open>
  \<^verbatim>\<open>dt.isoformat()\<close> of a datetime in UTC: the microseconds are left out when they are
  zero.
\<close>

definition isoformat :: "datetime \<Rightarrow> string" where
  "isoformat dt =
     zfill 4 (decimal (year dt)) @ ''-'' @ zfill 2 (decimal (month dt)) @ ''-'' @
     zfill 2 (decimal (day dt)) @ ''T'' @ zfill 2 (decimal (hour dt)) @ '':'' @
     zfill 2 (decimal (minute dt)) @ '':'' @ zfill 2 (decimal (second dt)) @
     (if microsecond dt = 0 then [] else ''.'' @ zfill 6 (decimal (microsecond dt))) @
     ''+00:00''"

text \<open>\<^verbatim>\<open>str(b).lower()\<close> of a Boolean.\<close>

definition lower_str_bool :: "bool \<Rightarrow> string" where
  "lower_str_bool b = (if b then ''true'' else ''false'')"

section \<open>The report\<close>

text \<open>
  Lines 221-222, the row of one entry of \<^verbatim>\<open>overall_activity\<close>: the first 19 characters
  of the timestamp are parsed, the result is taken to be in UTC, and the row is the
  login, the date and \<^verbatim>\<open>str(dt >= since_date).lower()\<close>.
\<close>

definition activity_row :: "datetime \<Rightarrow> login \<Rightarrow> timestamp \<Rightarrow> error + string list" where
  "activity_row since_date user last_iso =
     (case strptime (take 19 last_iso) of
        Inl e \<Rightarrow> Inl e
      | Inr dt \<Rightarrow> Inr [user, strftime_dmY dt, lower_str_bool (datetime_ge dt since_date)])"

text \<open>
  Lines 220-222, the loop over \<^verbatim>\<open>overall_activity.items()\<close>. Each row goes to the file as
  it is made, so when \<^verbatim>\<open>strptime\<close> raises, the rows written before stay in the file:
  the loop carries the rows written so far.
\<close>

fun activity_rows ::
  "datetime \<Rightarrow> activity \<Rightarrow> string list list \<Rightarrow> (error + unit) \<times> string list list" where
  "activity_rows since_date [] rows = (Inr (), rows)"
| "activity_rows since_date ((user, last_iso) # rest) rows =
     (case activity_row since_date user last_iso of
        Inl e \<Rightarrow> (Inl e, rows)
      | Inr row \<Rightarrow> activity_rows since_date rest (rows @ [row]))"

text \<open>
  Lines 217-224. \<^verbatim>\<open>open(filename, "w")\<close> replaces a file of the same name.
  \<^verbatim>\<open>sorted\<close> of a set of strings is the list of its elements in ascending order.
\<close>

definition write_report :: "string \<Rightarrow> datetime \<Rightarrow> activity \<Rightarrow> string set \<Rightarrow> unit run" where
  "write_report filename since_date overall_activity never_active_users w =
     (case activity_rows since_date overall_activity [[''Users'', ''Last activity'', ''active'']] of
        (Inl e, rows) \<Rightarrow> Some (Inl e, w\<lparr>files := AList.update filename rows (files w)\<rparr>)
      | (Inr _, rows) \<Rightarrow>
          Some (Inr (),
            w\<lparr>files := AList.update filename
              (rows @ map (\<lambda>user. [user, ''N/A'', ''never-active''])
                        (sorted_list_of_set never_active_users))
              (files w)\<rparr>))"

section \<open>The orchestrator\<close>

text \<open>
  Lines 193-201, \<^verbatim>\<open>for br in branches\<close>. The whole work of an iteration stands in a
  \<^verbatim>\<open>try\<close> with \<^verbatim>\<open>except Exception\<close>, so the loop has no exceptional exit: a branch
  that raises is reported and skipped, and \<^verbatim>\<open>overall_activity\<close> is as it was before
  the branch.
\<close>

fun for_branches ::
  "string \<Rightarrow> string \<Rightarrow> string \<Rightarrow> string list \<Rightarrow> activity \<Rightarrow> world \<Rightarrow> (activity \<times> world) option" where
  "for_branches org repo since_iso [] overall_activity w = Some (overall_activity, w)"
| "for_branches org repo since_iso (br # branches) overall_activity w =
     (case collect_branch_activity org repo br since_iso (print (Branch br) w) of
        None \<Rightarrow> None
      | Some (Inl e, w') \<Rightarrow>
          for_branches org repo since_iso branches overall_activity
            (print (SkippingBranch br e) w')
      | Some (Inr act, w') \<Rightarrow>
          for_branches org repo since_iso branches (merge overall_activity act) w')"

text \<open>Lines 205-207; the two seconds of \<^verbatim>\<open>time.sleep\<close> leave no other trace.\<close>

definition rate_limit_pause :: "nat \<Rightarrow> world \<Rightarrow> world" where
  "rate_limit_pause repo_counter w = (if repo_counter mod 100 = 0 then print Sleeping w else w)"

text \<open>
  Lines 185-207, \<^verbatim>\<open>for repo in repos\<close>. An exception of \<^verbatim>\<open>get_all_branches\<close> is caught
  by the handler of line 202, after which the iteration goes on to line 205. The
  \<^verbatim>\<open>continue\<close> of line 192 goes to the next repository at once, past line 205.
\<close>

fun for_repos ::
  "string \<Rightarrow> string \<Rightarrow> nat \<Rightarrow> string list \<Rightarrow> activity \<Rightarrow> nat \<Rightarrow> world \<Rightarrow> (activity \<times> world) option" where
  "for_repos org since_iso len_repos [] overall_activity repo_counter w =
     Some (overall_activity, w)"
| "for_repos org since_iso len_repos (repo # repos) overall_activity repo_counter w =
     (case get_all_branches repo org
             (print (RepoProgress (repo_counter + 1) len_repos repo) w) of
        None \<Rightarrow> None
      | Some (Inl e, w') \<Rightarrow>
          for_repos org since_iso len_repos repos overall_activity (repo_counter + 1)
            (rate_limit_pause (repo_counter + 1) (print (ErrorOnRepo repo e) w'))
      | Some (Inr branches, w') \<Rightarrow>
          if branches = []
          then for_repos org since_iso len_repos repos overall_activity (repo_counter + 1)
                 (print NoBranches w')
          else
            (case for_branches org repo since_iso branches overall_activity w' of
               None \<Rightarrow> None
             | Some (overall_activity', w'') \<Rightarrow>
                 for_repos org since_iso len_repos repos overall_activity' (repo_counter + 1)
                   (rate_limit_pause (repo_counter + 1) w'')))"

text \<open>Lines 210-212: the members that are no key of \<^verbatim>\<open>overall_activity\<close>.\<close>

definition never_active_users :: "login list \<Rightarrow> activity \<Rightarrow> login set" where
  "never_active_users all_members overall_activity =
     set all_members - set (map fst overall_activity)"

text \<open>Line 214.\<close>

definition report_filename :: "string \<Rightarrow> datetime \<Rightarrow> string" where
  "report_filename org now =
     ''user_activity_report_'' @ org @ ''_'' @ strftime_stamp now @ ''.csv''"

text \<open>
  Lines 170-226, the body of \<^verbatim>\<open>for ORG_NAME in ORG_NAMES\<close>. The clock is read twice:
  \<^verbatim>\<open>since_date\<close> is the value of line 179, the time of the call less the threshold in
  days, and \<^verbatim>\<open>now\<close> is the time read at line 214. Both are given to the model, which
  does not compute with the calendar.

  The call of \<^verbatim>\<open>get_repositories_for_org\<close> stands in a \<^verbatim>\<open>try\<close>; the call of
  \<^verbatim>\<open>get_all_org_members_for_org\<close> at line 210 and the writing of the report stand in
  none, so their exceptions leave the loop and \<^verbatim>\<open>main\<close>.
\<close>

definition process_org :: "datetime \<Rightarrow> datetime \<Rightarrow> string \<Rightarrow> unit run" where
  "process_org since_date now org w =
     (case get_repositories_for_org org (print (FetchingRepos org) w) of
        None \<Rightarrow> None
      | Some (Inl e, w1) \<Rightarrow> Some (Inr (), print (SkippingOrg org e) w1)
      | Some (Inr repos, w1) \<Rightarrow>
          (case for_repos org (isoformat since_date) (length repos) repos [] 0
                  (print (TotalRepositories org (length repos)) w1) of
             None \<Rightarrow> None
           | Some (overall_activity, w2) \<Rightarrow>
               (case get_all_org_members_for_org org (print FetchingMembers w2) of
                  None \<Rightarrow> None
                | Some (Inl e, w3) \<Rightarrow> Some (Inl e, w3)
                | Some (Inr all_members, w3) \<Rightarrow>
                    (case write_report (report_filename org now) since_date overall_activity
                            (never_active_users all_members overall_activity)
                            (print (WritingCSV (report_filename org now)) w3) of
                       None \<Rightarrow> None
                     | Some (Inl e, w4) \<Rightarrow> Some (Inl e, w4)
                     | Some (Inr _, w4) \<Rightarrow> Some (Inr (), print (DoneWith org) w4)))))"

text \<open>
  Lines 169-226. \<^verbatim>\<open>clock i\<close> gives the two readings of the clock for the organisation
  at position \<^verbatim>\<open>i\<close> of \<^verbatim>\<open>ORG_NAMES\<close>.
\<close>

fun for_orgs :: "(nat \<Rightarrow> datetime \<times> datetime) \<Rightarrow> nat \<Rightarrow> string list \<Rightarrow> unit run" where
  "for_orgs clock i [] w = Some (Inr (), w)"
| "for_orgs clock i (org # orgs) w =
     (case process_org (fst (clock i)) (snd (clock i)) org w of
        None \<Rightarrow> None
      | Some (Inl e, w') \<Rightarrow> Some (Inl e, w')
      | Some (Inr _, w') \<Rightarrow> for_orgs clock (i + 1) orgs w')"

text \<open>
  Lines 164-226. \<^verbatim>\<open>ORG_NAMES\<close> is the list read from the environment at line 11. A
  result \<^term>\<open>Inl e\<close> is an exception that leaves \<^verbatim>\<open>main\<close>: the process ends with a
  traceback.
\<close>

definition main :: "string list \<Rightarrow> (nat \<Rightarrow> datetime \<times> datetime) \<Rightarrow> unit run" where
  "main ORG_NAMES clock w =
     (if ORG_NAMES = [] then Some (Inr (), print PleaseSetOrgNames w)
      else for_orgs clock 0 ORG_NAMES w)"

section \<open>Chronological order\<close>

text \<open>
  The specification speaks of a timestamp that is chronologically greater than another.
  The program has no such comparison (it compares the strings), so the definitions of this
  section are not taken from the source: they say what the words of the specification
  mean, for the timestamps GitHub sends. These are ISO-8601 strings,
  \<^verbatim>\<open>YYYY-MM-DDTHH:MM:SS\<close> followed by \<^verbatim>\<open>Z\<close> or by an offset \<^verbatim>\<open>+HH:MM\<close> or \<^verbatim>\<open>-HH:MM\<close>:
  \<^verbatim>\<open>updatedAt\<close> is a \<^verbatim>\<open>DateTime\<close>, always in UTC, and the \<^verbatim>\<open>date\<close> of a commit author
  is a \<^verbatim>\<open>GitTimestamp\<close>, which keeps the offset the author committed with.
\<close>

text \<open>
  The days before the first of January of a year, and before the first of a month within
  its year, in the proleptic Gregorian calendar; then the number of a day, counted from
  the first of January of the year 1, as \<^verbatim>\<open>date.toordinal\<close> counts.
\<close>

definition days_before_year :: "nat \<Rightarrow> nat" where
  "days_before_year y = 365 * (y - 1) + (y - 1) div 4 - (y - 1) div 100 + (y - 1) div 400"

definition days_before_month :: "nat \<Rightarrow> nat \<Rightarrow> nat" where
  "days_before_month y m = sum_list (map (days_in_month y) [1..<m])"

definition toordinal :: "datetime \<Rightarrow> nat" where
  "toordinal dt = days_before_year (year dt) + days_before_month (year dt) (month dt) + day dt"

text \<open>The offset from UTC that ends a timestamp, in minutes, positive to the east.\<close>

fun utc_offset :: "string \<Rightarrow> int option" where
  "utc_offset [z] = (if z = CHR ''Z'' then Some 0 else None)"
| "utc_offset [sign, h1, h2, colon, m1, m2] =
     (if (sign = CHR ''+'' \<or> sign = CHR ''-'') \<and> colon = CHR '':'' \<and>
         is_digit h1 \<and> is_digit h2 \<and> is_digit m1 \<and> is_digit m2
      then Some ((if sign = CHR ''-'' then - 1 else 1) *
                 int (60 * int_of_str [h1, h2] + int_of_str [m1, m2]))
      else None)"
| "utc_offset _ = None"

text \<open>
  The instant a timestamp denotes, in seconds of UTC: the wall-clock reading of the first
  19 characters, less the offset.
\<close>

definition instant :: "timestamp \<Rightarrow> int option" where
  "instant ts =
     (case (strptime (take 19 ts), utc_offset (drop 19 ts)) of
        (Inr dt, Some offset) \<Rightarrow>
          Some (((int (toordinal dt) * 24 + int (hour dt)) * 60 + int (minute dt) - offset) * 60 +
                int (second dt))
      | _ \<Rightarrow> None)"

definition chronologically_before :: "timestamp \<Rightarrow> timestamp \<Rightarrow> bool" where
  "chronologically_before a b =
     (case (instant a, instant b) of (Some i, Some j) \<Rightarrow> i < j | _ \<Rightarrow> False)"

section \<open>Evaluation\<close>

text \<open>Unfolding the dates of a concrete timestamp.\<close>

lemmas eval_dates =
  strptime_def int_of_str_def digit_val_def is_digit_def in_range_def days_in_month_def
  is_leap_def strftime_dmY_def zfill_def decimal.simps digit_char_def char_of_def bit_0
  datetime_ge_def datetime_fields_def lower_str_bool_def

section \<open>Digits\<close>

text \<open>Digits and their values; a number of two or four digits printed again.\<close>

lemma digit_bounds: "is_digit c \<longleftrightarrow> 48 \<le> (of_char c :: nat) \<and> (of_char c :: nat) \<le> 57"
  by (simp add: is_digit_def less_eq_char_def)

lemma digit_val_less: "is_digit c \<Longrightarrow> digit_val c < 10"
  by (auto simp: digit_bounds digit_val_def)

lemma digit_char_val: "is_digit c \<Longrightarrow> digit_char (digit_val c) = c"
  by (simp add: digit_bounds digit_val_def digit_char_def)


lemma digit_not_blank: "is_digit c \<Longrightarrow> c \<noteq> CHR '' ''"
  by (auto simp: digit_bounds)



lemma int_of_str_digits:
  "is_digit a \<Longrightarrow> int_of_str (a # s) = foldl (\<lambda>n c. 10 * n + digit_val c) 0 (a # s)"
  by (simp add: int_of_str_def digit_not_blank)



lemma digit_not_separator:
  "is_digit c \<Longrightarrow> c \<noteq> CHR ''-'' \<and> c \<noteq> CHR ''T'' \<and> c \<noteq> CHR ''t'' \<and> c \<noteq> CHR '':''"
  by (auto simp: digit_bounds)

lemma strptime_canonical:
  assumes "is_digit y1" "is_digit y2" "is_digit y3" "is_digit y4"
    and "is_digit m1" "is_digit m2" "is_digit d1" "is_digit d2"
    and "is_digit h1" "is_digit h2" "is_digit n1" "is_digit n2"
    and "is_digit s1" "is_digit s2"
  shows "strptime [y1, y2, y3, y4, CHR ''-'', m1, m2, CHR ''-'', d1, d2, CHR ''T'',
                   h1, h2, CHR '':'', n1, n2, CHR '':'', s1, s2] =
    (if re_m [m1, m2] \<and> re_d [d1, d2] \<and> re_H [h1, h2] \<and> re_M [n1, n2] \<and> re_S [s1, s2] \<and>
        1 \<le> int_of_str [y1, y2, y3, y4] \<and>
        int_of_str [d1, d2] \<le> days_in_month (int_of_str [y1, y2, y3, y4]) (int_of_str [m1, m2]) \<and>
        int_of_str [s1, s2] \<le> 59
     then Inr \<lparr>year = int_of_str [y1, y2, y3, y4], month = int_of_str [m1, m2],
               day = int_of_str [d1, d2], hour = int_of_str [h1, h2],
               minute = int_of_str [n1, n2], second = int_of_str [s1, s2], microsecond = 0\<rparr>
     else Inl ValueError)"
  using assms by (simp add: strptime_def digit_not_separator)

section \<open>Timestamps written with the same offset\<close>

text \<open>
  The calendar: the number of a day grows with the date, and the instant with the date and
  the time of day.
\<close>

lemma days_before_month_Suc:
  "1 \<le> m \<Longrightarrow> days_before_month y (Suc m) = days_before_month y m + days_in_month y m"
  by (simp add: days_before_month_def)

lemma days_before_month_mono: "m \<le> m' \<Longrightarrow> days_before_month y m \<le> days_before_month y m'"
proof (induction m' rule: nat_induct_at_least [of m])
  case base
  show ?case by simp
next
  case (Suc n)
  show ?case
  proof (cases "1 \<le> n")
    case True
    with Suc show ?thesis by (simp add: days_before_month_Suc)
  next
    case False
    with Suc show ?thesis by (simp add: days_before_month_def)
  qed
qed

lemma days_before_month_13:
  "days_before_month y 13 = 365 + (if is_leap y then 1 else 0)"
  by (simp add: days_before_month_def upt_conv_Cons days_in_month_def)

lemma days_before_year_Suc:
  "1 \<le> y \<Longrightarrow> days_before_year (Suc y) = days_before_year y + days_before_month y 13"
proof -
  assume "1 \<le> y"
  then obtain k where k: "y = Suc k" by (cases y) simp_all
  have d4: "Suc k div 4 = k div 4 + (if Suc k mod 4 = 0 then 1 else 0)"
    by (simp add: div_Suc mod_Suc) 
  have d100: "Suc k div 100 = k div 100 + (if Suc k mod 100 = 0 then 1 else 0)"
    by (simp add: div_Suc mod_Suc)
  have d400: "Suc k div 400 = k div 400 + (if Suc k mod 400 = 0 then 1 else 0)"
    by (simp add: div_Suc mod_Suc)
  have le: "k div 100 \<le> k div 4" by (rule div_le_mono2) simp_all
  have m1: "Suc k mod 100 = 0 \<Longrightarrow> Suc k mod 4 = 0"
    using dvd_trans [of 4 100 "Suc k"] by (simp add: mod_eq_0_iff_dvd)
  have m2: "Suc k mod 400 = 0 \<Longrightarrow> Suc k mod 100 = 0"
    using dvd_trans [of 100 400 "Suc k"] by (simp add: mod_eq_0_iff_dvd)
  define a b c where "a = k div 4" and "b = k div 100" and "c = k div 400"
  define p q r :: nat where "p = (if Suc k mod 4 = 0 then 1 else 0)"
    and "q = (if Suc k mod 100 = 0 then 1 else 0)" and "r = (if Suc k mod 400 = 0 then 1 else 0)"
  have pq: "q \<le> p" "r \<le> q" "p \<le> 1" using m1 m2 by (auto simp: p_def q_def r_def)
  have leap: "(if is_leap (Suc k) then 1 else 0) = p + r - q"
    using m1 m2 by (auto simp: is_leap_def p_def q_def r_def)
  have "days_before_year (Suc y) = 365 * Suc k + (a + p) - (b + q) + (c + r)"
    by (simp add: k days_before_year_def d4 d100 d400 a_def b_def c_def p_def q_def r_def)
  moreover have "days_before_year y + days_before_month y 13 =
     365 * k + a - b + c + (365 + (p + r - q))"
    by (simp add: k days_before_year_def days_before_month_13 leap a_def b_def c_def)
  moreover have "365 * Suc k + (a + p) - (b + q) + (c + r) = 365 * k + a - b + c + (365 + (p + r - q))"
    using le pq unfolding a_def [symmetric] b_def [symmetric] by simp
  ultimately show ?thesis by simp
qed

lemma days_before_year_mono:
  assumes "y \<le> y'" and "1 \<le> y"
  shows "days_before_year y \<le> days_before_year y'"
  using assms(1)
proof (induction y' rule: nat_induct_at_least [of y])
  case base
  show ?case by simp
next
  case (Suc n)
  with assms(2) show ?case by (simp add: days_before_year_Suc)
qed

lemma ordinal_less:
  assumes "1 \<le> y" "1 \<le> m" "m \<le> 12" "d \<le> days_in_month y m"
    and "1 \<le> d'"
    and "y < y' \<or> y = y' \<and> (m < m' \<or> m = m' \<and> d < d')"
  shows "days_before_year y + days_before_month y m + d <
         days_before_year y' + days_before_month y' m' + d'"
proof -
  have month: "days_before_month y m + d \<le> days_before_month y (Suc m)"
    using assms(2,4) by (simp add: days_before_month_Suc)
  consider "y < y'" | "y = y'" "m < m'" | "y = y'" "m = m'" "d < d'"
    using assms(6) by auto
  then show ?thesis
  proof cases
    case 1
    have "days_before_month y (Suc m) \<le> days_before_month y 13"
      using assms(3) by (intro days_before_month_mono) simp
    with month have "days_before_year y + days_before_month y m + d \<le> days_before_year (Suc y)"
      using assms(1) by (simp add: days_before_year_Suc)
    also have "\<dots> \<le> days_before_year y'"
      using 1 by (intro days_before_year_mono) simp_all
    finally show ?thesis using assms(5) by simp
  next
    case 2
    then have "days_before_month y (Suc m) \<le> days_before_month y' m'"
      by (simp add: days_before_month_mono)
    with month 2 assms(5) show ?thesis by simp
  next
    case 3
    then show ?thesis by simp
  qed
qed

lemma seconds_less:
  fixes o1 o2 h1 h2 n1 n2 s1 s2 :: nat and off :: int
  assumes "h1 \<le> 23" "n1 \<le> 59" "s1 \<le> 59"
    and "o1 < o2 \<or> o1 = o2 \<and> (h1 < h2 \<or> h1 = h2 \<and> (n1 < n2 \<or> n1 = n2 \<and> s1 < s2))"
  shows "((int o1 * 24 + int h1) * 60 + int n1 - off) * 60 + int s1 <
         ((int o2 * 24 + int h2) * 60 + int n2 - off) * 60 + int s2"
  using assms by auto

text \<open>
  Strings of digits of one length are in the order of the numbers they write, so two
  timestamps \<^verbatim>\<open>YYYY-MM-DDTHH:MM:SS\<close> with two digits for every field but the year, and
  the same text after the seconds, are in the order of their fields.
\<close>

lemma digit_less_iff: "is_digit a \<Longrightarrow> is_digit b \<Longrightarrow> (a < b) = (digit_val a < digit_val b)"
  by (auto simp: digit_bounds digit_val_def less_char_def)

lemma digit_eq_iff: "is_digit a \<Longrightarrow> is_digit b \<Longrightarrow> (a = b) = (digit_val a = digit_val b)"
  by (metis digit_char_val)

lemma digits_less:
  assumes "length xs = length ys" "list_all is_digit xs" "list_all is_digit ys"
  shows "(n < n' \<or> n = n' \<and> xs @ r < ys @ r') =
         (foldl (\<lambda>n c. 10 * n + digit_val c) n xs < foldl (\<lambda>n c. 10 * n + digit_val c) n' ys \<or>
          foldl (\<lambda>n c. 10 * n + digit_val c) n xs = foldl (\<lambda>n c. 10 * n + digit_val c) n' ys \<and>
          r < r')"
  using assms
proof (induction xs ys arbitrary: n n' rule: list_induct2)
  case Nil
  show ?case by simp
next
  case (Cons x xs y ys)
  from Cons.prems have x: "is_digit x" and y: "is_digit y"
    and xs: "list_all is_digit xs" and ys: "list_all is_digit ys"
    by simp_all
  have vx: "digit_val x < 10" and vy: "digit_val y < 10"
    using x y by (simp_all add: digit_val_less)
  have "(n < n' \<or> n = n' \<and> (x # xs) @ r < (y # ys) @ r') =
        (n < n' \<or> n = n' \<and> (digit_val x < digit_val y \<or>
           digit_val x = digit_val y \<and> xs @ r < ys @ r'))"
    by (simp add: digit_less_iff [OF x y] digit_eq_iff [OF x y])
  also have "\<dots> = (10 * n + digit_val x < 10 * n' + digit_val y \<or>
       10 * n + digit_val x = 10 * n' + digit_val y \<and> xs @ r < ys @ r')"
    using vx vy by auto
  also have "\<dots> =
         (foldl (\<lambda>n c. 10 * n + digit_val c) n (x # xs) < foldl (\<lambda>n c. 10 * n + digit_val c) n' (y # ys) \<or>
          foldl (\<lambda>n c. 10 * n + digit_val c) n (x # xs) = foldl (\<lambda>n c. 10 * n + digit_val c) n' (y # ys) \<and>
          r < r')"
    using Cons.IH [OF xs ys] by simp
  finally show ?case .
qed

lemma group_less:
  assumes "length xs = length ys" "list_all is_digit xs" "list_all is_digit ys" "xs \<noteq> []"
  shows "(xs @ r < ys @ r') =
         (int_of_str xs < int_of_str ys \<or> int_of_str xs = int_of_str ys \<and> r < r')"
proof -
  from assms obtain a s b u where xs: "xs = a # s" and ys: "ys = b # u"
    by (cases xs; cases ys) simp_all
  with assms(2,3) have "is_digit a" "is_digit b" by simp_all
  then have "int_of_str xs = foldl (\<lambda>n c. 10 * n + digit_val c) 0 xs"
    "int_of_str ys = foldl (\<lambda>n c. 10 * n + digit_val c) 0 ys"
    unfolding xs ys by (simp_all only: int_of_str_digits)
  with digits_less [OF assms(1-3), of 0 0 r r'] show ?thesis by simp
qed

lemma field_bounds:
  assumes "is_digit a" "is_digit b"
  shows "re_m [a, b] \<Longrightarrow> 1 \<le> int_of_str [a, b] \<and> int_of_str [a, b] \<le> 12"
    and "re_d [a, b] \<Longrightarrow> 1 \<le> int_of_str [a, b]"
    and "re_H [a, b] \<Longrightarrow> int_of_str [a, b] \<le> 23"
    and "re_M [a, b] \<Longrightarrow> int_of_str [a, b] \<le> 59"
  using assms
  by (auto simp: int_of_str_digits in_range_def digit_bounds digit_val_def less_eq_char_def)

text \<open>
  For such timestamps, when both denote an instant, the order of the strings is the order
  of the instants.
\<close>

lemma instant_less:
  fixes off :: int
  assumes "1 \<le> Y" "1 \<le> m" "m \<le> 12" "d \<le> days_in_month Y m" "H \<le> 23" "M \<le> 59" "S \<le> 59"
    and "1 \<le> d'"
    and "Y < Y' \<or> Y = Y' \<and> (m < m' \<or> m = m' \<and> (d < d' \<or> d = d' \<and>
           (H < H' \<or> H = H' \<and> (M < M' \<or> M = M' \<and> S < S'))))"
  shows "((int (days_before_year Y + days_before_month Y m + d) * 24 + int H) * 60 + int M - off) * 60 + int S <
         ((int (days_before_year Y' + days_before_month Y' m' + d') * 24 + int H') * 60 + int M' - off) * 60 + int S'"
proof (cases "Y < Y' \<or> Y = Y' \<and> (m < m' \<or> m = m' \<and> d < d')")
  case True
  with assms(1-4,8) have "days_before_year Y + days_before_month Y m + d <
      days_before_year Y' + days_before_month Y' m' + d'"
    by (intro ordinal_less)
  with assms(5-7) show ?thesis by (intro seconds_less) simp_all
next
  case False
  with assms(9) have "Y = Y'" "m = m'" "d = d'"
    "H < H' \<or> H = H' \<and> (M < M' \<or> M = M' \<and> S < S')"
    by auto
  with assms(5-7) show ?thesis by (intro seconds_less) simp_all
qed

lemma instant_canonical:
  assumes "list_all is_digit [y1, y2, y3, y4, m1, m2, d1, d2, h1, h2, n1, n2, s1, s2]"
    and "instant ([y1, y2, y3, y4, CHR ''-'', m1, m2, CHR ''-'', d1, d2, CHR ''T'',
       h1, h2, CHR '':'', n1, n2, CHR '':'', s1, s2] @ zone) = Some i"
  shows "\<exists>off. i = ((int (days_before_year (int_of_str [y1, y2, y3, y4]) +
                  days_before_month (int_of_str [y1, y2, y3, y4]) (int_of_str [m1, m2]) +
                  int_of_str [d1, d2]) * 24 + int (int_of_str [h1, h2])) * 60 +
               int (int_of_str [n1, n2]) - off) * 60 + int (int_of_str [s1, s2])
          \<and> utc_offset zone = Some off"
    and "1 \<le> int_of_str [y1, y2, y3, y4]"
    and "1 \<le> int_of_str [m1, m2]" and "int_of_str [m1, m2] \<le> 12"
    and "1 \<le> int_of_str [d1, d2]"
    and "int_of_str [d1, d2] \<le> days_in_month (int_of_str [y1, y2, y3, y4]) (int_of_str [m1, m2])"
    and "int_of_str [h1, h2] \<le> 23" and "int_of_str [n1, n2] \<le> 59" and "int_of_str [s1, s2] \<le> 59"
proof -
  from assms(1) have d: "is_digit y1" "is_digit y2" "is_digit y3" "is_digit y4"
    "is_digit m1" "is_digit m2" "is_digit d1" "is_digit d2"
    "is_digit h1" "is_digit h2" "is_digit n1" "is_digit n2" "is_digit s1" "is_digit s2"
    by simp_all
  from assms(2) obtain dt off where
    p: "strptime [y1, y2, y3, y4, CHR ''-'', m1, m2, CHR ''-'', d1, d2, CHR ''T'',
       h1, h2, CHR '':'', n1, n2, CHR '':'', s1, s2] = Inr dt"
    and o: "utc_offset zone = Some off"
    and i: "i = ((int (toordinal dt) * 24 + int (hour dt)) * 60 + int (minute dt) - off) * 60 +
                int (second dt)"
    by (auto simp: instant_def split: sum.splits option.splits)
  from p have v: "re_m [m1, m2]" "re_d [d1, d2]" "re_H [h1, h2]" "re_M [n1, n2]"
    "1 \<le> int_of_str [y1, y2, y3, y4]"
    "int_of_str [d1, d2] \<le> days_in_month (int_of_str [y1, y2, y3, y4]) (int_of_str [m1, m2])"
    "int_of_str [s1, s2] \<le> 59"
    and dt: "dt = \<lparr>year = int_of_str [y1, y2, y3, y4], month = int_of_str [m1, m2],
               day = int_of_str [d1, d2], hour = int_of_str [h1, h2],
               minute = int_of_str [n1, n2], second = int_of_str [s1, s2], microsecond = 0\<rparr>"
    unfolding strptime_canonical [OF d] by (simp_all split: if_splits)
  show "\<exists>off. i = ((int (days_before_year (int_of_str [y1, y2, y3, y4]) +
                  days_before_month (int_of_str [y1, y2, y3, y4]) (int_of_str [m1, m2]) +
                  int_of_str [d1, d2]) * 24 + int (int_of_str [h1, h2])) * 60 +
               int (int_of_str [n1, n2]) - off) * 60 + int (int_of_str [s1, s2])
          \<and> utc_offset zone = Some off"
    using i o by (simp add: dt toordinal_def)
  show "1 \<le> int_of_str [y1, y2, y3, y4]"
    "int_of_str [d1, d2] \<le> days_in_month (int_of_str [y1, y2, y3, y4]) (int_of_str [m1, m2])"
    "int_of_str [s1, s2] \<le> 59"
    by (rule v)+
  show "1 \<le> int_of_str [m1, m2]" "int_of_str [m1, m2] \<le> 12"
    using field_bounds(1) [OF d(5,6) v(1)] by simp_all
  show "1 \<le> int_of_str [d1, d2]" by (rule field_bounds(2) [OF d(7,8) v(2)])
  show "int_of_str [h1, h2] \<le> 23" by (rule field_bounds(3) [OF d(9,10) v(3)])
  show "int_of_str [n1, n2] \<le> 59" by (rule field_bounds(4) [OF d(11,12) v(4)])
qed

lemma wall_less:
  assumes "list_all is_digit [y1, y2, y3, y4, m1, m2, d1, d2, h1, h2, n1, n2, s1, s2]"
    and "list_all is_digit [z1, z2, z3, z4, k1, k2, e1, e2, g1, g2, p1, p2, t1, t2]"
  shows "([y1, y2, y3, y4, CHR ''-'', m1, m2, CHR ''-'', d1, d2, CHR ''T'',
       h1, h2, CHR '':'', n1, n2, CHR '':'', s1, s2] @ zone < [z1, z2, z3, z4, CHR ''-'', k1, k2, CHR ''-'', e1, e2, CHR ''T'',
       g1, g2, CHR '':'', p1, p2, CHR '':'', t1, t2] @ zone) =
     (int_of_str [y1, y2, y3, y4] < int_of_str [z1, z2, z3, z4] \<or>
      int_of_str [y1, y2, y3, y4] = int_of_str [z1, z2, z3, z4] \<and>
     (int_of_str [m1, m2] < int_of_str [k1, k2] \<or> int_of_str [m1, m2] = int_of_str [k1, k2] \<and>
     (int_of_str [d1, d2] < int_of_str [e1, e2] \<or> int_of_str [d1, d2] = int_of_str [e1, e2] \<and>
     (int_of_str [h1, h2] < int_of_str [g1, g2] \<or> int_of_str [h1, h2] = int_of_str [g1, g2] \<and>
     (int_of_str [n1, n2] < int_of_str [p1, p2] \<or> int_of_str [n1, n2] = int_of_str [p1, p2] \<and>
      int_of_str [s1, s2] < int_of_str [t1, t2])))))"
proof -
  have S: "([s1, s2] @ zone < [t1, t2] @ zone) = (int_of_str [s1, s2] < int_of_str [t1, t2])"
    using assms by (subst group_less) simp_all
  have M: "([n1, n2] @ CHR '':'' # [s1, s2] @ zone < [p1, p2] @ CHR '':'' # [t1, t2] @ zone) =
      (int_of_str [n1, n2] < int_of_str [p1, p2] \<or> int_of_str [n1, n2] = int_of_str [p1, p2] \<and>
       [s1, s2] @ zone < [t1, t2] @ zone)"
    using assms by (subst group_less) simp_all
  have H: "([h1, h2] @ CHR '':'' # [n1, n2] @ CHR '':'' # [s1, s2] @ zone <
            [g1, g2] @ CHR '':'' # [p1, p2] @ CHR '':'' # [t1, t2] @ zone) =
      (int_of_str [h1, h2] < int_of_str [g1, g2] \<or> int_of_str [h1, h2] = int_of_str [g1, g2] \<and>
       [n1, n2] @ CHR '':'' # [s1, s2] @ zone < [p1, p2] @ CHR '':'' # [t1, t2] @ zone)"
    using assms by (subst group_less) simp_all
  have D: "([d1, d2] @ CHR ''T'' # [h1, h2] @ CHR '':'' # [n1, n2] @ CHR '':'' # [s1, s2] @ zone <
            [e1, e2] @ CHR ''T'' # [g1, g2] @ CHR '':'' # [p1, p2] @ CHR '':'' # [t1, t2] @ zone) =
      (int_of_str [d1, d2] < int_of_str [e1, e2] \<or> int_of_str [d1, d2] = int_of_str [e1, e2] \<and>
       [h1, h2] @ CHR '':'' # [n1, n2] @ CHR '':'' # [s1, s2] @ zone <
       [g1, g2] @ CHR '':'' # [p1, p2] @ CHR '':'' # [t1, t2] @ zone)"
    using assms by (subst group_less) simp_all
  have Mo: "([m1, m2] @ CHR ''-'' # [d1, d2] @ CHR ''T'' # [h1, h2] @ CHR '':'' # [n1, n2] @
               CHR '':'' # [s1, s2] @ zone <
             [k1, k2] @ CHR ''-'' # [e1, e2] @ CHR ''T'' # [g1, g2] @ CHR '':'' # [p1, p2] @
               CHR '':'' # [t1, t2] @ zone) =
      (int_of_str [m1, m2] < int_of_str [k1, k2] \<or> int_of_str [m1, m2] = int_of_str [k1, k2] \<and>
       [d1, d2] @ CHR ''T'' # [h1, h2] @ CHR '':'' # [n1, n2] @ CHR '':'' # [s1, s2] @ zone <
       [e1, e2] @ CHR ''T'' # [g1, g2] @ CHR '':'' # [p1, p2] @ CHR '':'' # [t1, t2] @ zone)"
    using assms by (subst group_less) simp_all
  have Y: "([y1, y2, y3, y4] @ CHR ''-'' # [m1, m2] @ CHR ''-'' # [d1, d2] @ CHR ''T'' # [h1, h2] @
               CHR '':'' # [n1, n2] @ CHR '':'' # [s1, s2] @ zone <
             [z1, z2, z3, z4] @ CHR ''-'' # [k1, k2] @ CHR ''-'' # [e1, e2] @ CHR ''T'' # [g1, g2] @
               CHR '':'' # [p1, p2] @ CHR '':'' # [t1, t2] @ zone) =
      (int_of_str [y1, y2, y3, y4] < int_of_str [z1, z2, z3, z4] \<or>
       int_of_str [y1, y2, y3, y4] = int_of_str [z1, z2, z3, z4] \<and>
       [m1, m2] @ CHR ''-'' # [d1, d2] @ CHR ''T'' # [h1, h2] @ CHR '':'' # [n1, n2] @
               CHR '':'' # [s1, s2] @ zone <
       [k1, k2] @ CHR ''-'' # [e1, e2] @ CHR ''T'' # [g1, g2] @ CHR '':'' # [p1, p2] @
               CHR '':'' # [t1, t2] @ zone)"
    using assms by (subst group_less) simp_all
  have "[y1, y2, y3, y4, CHR ''-'', m1, m2, CHR ''-'', d1, d2, CHR ''T'',
       h1, h2, CHR '':'', n1, n2, CHR '':'', s1, s2] @ zone =
      [y1, y2, y3, y4] @ CHR ''-'' # [m1, m2] @ CHR ''-'' # [d1, d2] @ CHR ''T'' # [h1, h2] @
        CHR '':'' # [n1, n2] @ CHR '':'' # [s1, s2] @ zone"
    "[z1, z2, z3, z4, CHR ''-'', k1, k2, CHR ''-'', e1, e2, CHR ''T'',
       g1, g2, CHR '':'', p1, p2, CHR '':'', t1, t2] @ zone =
      [z1, z2, z3, z4] @ CHR ''-'' # [k1, k2] @ CHR ''-'' # [e1, e2] @ CHR ''T'' # [g1, g2] @
        CHR '':'' # [p1, p2] @ CHR '':'' # [t1, t2] @ zone"
    by simp_all
  then show ?thesis by (simp only: Y Mo D H M S)
qed

lemma same_offset_order:
  assumes "list_all is_digit [y1, y2, y3, y4, m1, m2, d1, d2, h1, h2, n1, n2, s1, s2]"
    and "list_all is_digit [z1, z2, z3, z4, k1, k2, e1, e2, g1, g2, p1, p2, t1, t2]"
    and "instant ([y1, y2, y3, y4, CHR ''-'', m1, m2, CHR ''-'', d1, d2, CHR ''T'',
       h1, h2, CHR '':'', n1, n2, CHR '':'', s1, s2] @ zone) = Some i"
    and "instant ([z1, z2, z3, z4, CHR ''-'', k1, k2, CHR ''-'', e1, e2, CHR ''T'',
       g1, g2, CHR '':'', p1, p2, CHR '':'', t1, t2] @ zone) = Some j"
  shows "([y1, y2, y3, y4, CHR ''-'', m1, m2, CHR ''-'', d1, d2, CHR ''T'',
       h1, h2, CHR '':'', n1, n2, CHR '':'', s1, s2] @ zone < [z1, z2, z3, z4, CHR ''-'', k1, k2, CHR ''-'', e1, e2, CHR ''T'',
       g1, g2, CHR '':'', p1, p2, CHR '':'', t1, t2] @ zone) = (i < j)"
proof -
  let ?L = "\<lambda>(Y::nat) m d H M S (Y'::nat) m' d' H' M' (S'::nat).
     Y < Y' \<or> Y = Y' \<and> ((m::nat) < m' \<or> m = m' \<and> ((d::nat) < d' \<or> d = d' \<and>
       ((H::nat) < H' \<or> H = H' \<and> ((M::nat) < M' \<or> M = M' \<and> S < S'))))"
  note a = instant_canonical [OF assms(1,3)]
  note b = instant_canonical [OF assms(2,4)]
  from a(1) b(1) obtain off where
    i: "i = ((int (days_before_year (int_of_str [y1, y2, y3, y4]) +
                  days_before_month (int_of_str [y1, y2, y3, y4]) (int_of_str [m1, m2]) +
                  int_of_str [d1, d2]) * 24 + int (int_of_str [h1, h2])) * 60 +
               int (int_of_str [n1, n2]) - off) * 60 + int (int_of_str [s1, s2])"
    and j: "j = ((int (days_before_year (int_of_str [z1, z2, z3, z4]) +
                  days_before_month (int_of_str [z1, z2, z3, z4]) (int_of_str [k1, k2]) +
                  int_of_str [e1, e2]) * 24 + int (int_of_str [g1, g2])) * 60 +
               int (int_of_str [p1, p2]) - off) * 60 + int (int_of_str [t1, t2])"
    by auto
  have lt: "i < j" if "?L (int_of_str [y1, y2, y3, y4]) (int_of_str [m1, m2]) (int_of_str [d1, d2])
       (int_of_str [h1, h2]) (int_of_str [n1, n2]) (int_of_str [s1, s2])
       (int_of_str [z1, z2, z3, z4]) (int_of_str [k1, k2]) (int_of_str [e1, e2])
       (int_of_str [g1, g2]) (int_of_str [p1, p2]) (int_of_str [t1, t2])"
    unfolding i j using a(2,3,4,6,7,8,9) b(5) that by (rule instant_less)
  have gt: "j < i" if "?L (int_of_str [z1, z2, z3, z4]) (int_of_str [k1, k2]) (int_of_str [e1, e2])
       (int_of_str [g1, g2]) (int_of_str [p1, p2]) (int_of_str [t1, t2])
       (int_of_str [y1, y2, y3, y4]) (int_of_str [m1, m2]) (int_of_str [d1, d2])
       (int_of_str [h1, h2]) (int_of_str [n1, n2]) (int_of_str [s1, s2])"
    unfolding i j using b(2,3,4,6,7,8,9) a(5) that by (rule instant_less)
  have eq: "i = j" if "int_of_str [y1, y2, y3, y4] = int_of_str [z1, z2, z3, z4]"
    "int_of_str [m1, m2] = int_of_str [k1, k2]" "int_of_str [d1, d2] = int_of_str [e1, e2]"
    "int_of_str [h1, h2] = int_of_str [g1, g2]" "int_of_str [n1, n2] = int_of_str [p1, p2]"
    "int_of_str [s1, s2] = int_of_str [t1, t2]"
    unfolding i j using that by simp
  show ?thesis
    unfolding wall_less [OF assms(1,2)]
    using lt gt eq by (metis less_irrefl less_asym linorder_neqE_nat)
qed

lemma same_offset_max:
  assumes "list_all is_digit [y1, y2, y3, y4, m1, m2, d1, d2, h1, h2, n1, n2, s1, s2]"
    and "list_all is_digit [z1, z2, z3, z4, k1, k2, e1, e2, g1, g2, p1, p2, t1, t2]"
    and "instant ([y1, y2, y3, y4, CHR ''-'', m1, m2, CHR ''-'', d1, d2, CHR ''T'',
       h1, h2, CHR '':'', n1, n2, CHR '':'', s1, s2] @ zone) = Some i"
    and "instant ([z1, z2, z3, z4, CHR ''-'', k1, k2, CHR ''-'', e1, e2, CHR ''T'',
       g1, g2, CHR '':'', p1, p2, CHR '':'', t1, t2] @ zone) = Some j"
  shows "instant (max ([y1, y2, y3, y4, CHR ''-'', m1, m2, CHR ''-'', d1, d2, CHR ''T'',
       h1, h2, CHR '':'', n1, n2, CHR '':'', s1, s2] @ zone) ([z1, z2, z3, z4, CHR ''-'', k1, k2, CHR ''-'', e1, e2, CHR ''T'',
       g1, g2, CHR '':'', p1, p2, CHR '':'', t1, t2] @ zone)) = Some (max i j)"
proof -
  have "([z1, z2, z3, z4, CHR ''-'', k1, k2, CHR ''-'', e1, e2, CHR ''T'',
       g1, g2, CHR '':'', p1, p2, CHR '':'', t1, t2] @ zone < [y1, y2, y3, y4, CHR ''-'', m1, m2, CHR ''-'', d1, d2, CHR ''T'',
       h1, h2, CHR '':'', n1, n2, CHR '':'', s1, s2] @ zone) = (j < i)"
    using assms(2,1,4,3) by (rule same_offset_order)
  then have "([y1, y2, y3, y4, CHR ''-'', m1, m2, CHR ''-'', d1, d2, CHR ''T'',
       h1, h2, CHR '':'', n1, n2, CHR '':'', s1, s2] @ zone \<le> [z1, z2, z3, z4, CHR ''-'', k1, k2, CHR ''-'', e1, e2, CHR ''T'',
       g1, g2, CHR '':'', p1, p2, CHR '':'', t1, t2] @ zone) = (i \<le> j)"
    by (simp only: linorder_not_less [symmetric])
  then show ?thesis
    using assms(3,4) by (simp only: max_def split: if_splits) simp
qed

section \<open>The activity merge\<close>

lemma map_of_keep_latest:
  "map_of (keep_latest u d a) k = (if k = u then latest (map_of a u) (Some d) else map_of a k)"
  by (cases "map_of a u") (auto simp: keep_latest_def update_conv' max_def)

lemma distinct_keep_latest:
  "distinct (map fst a) \<Longrightarrow> distinct (map fst (keep_latest u d a))"
  by (simp add: keep_latest_def distinct_update split: option.splits)

lemma keep_latest_idle:
  "map_of a u = Some seen \<Longrightarrow> \<not> seen < d \<Longrightarrow> keep_latest u d a = a"
  by (simp add: keep_latest_def)

lemma latest_None_right [simp]: "latest a None = a"
  by (cases a) simp_all

lemma latest_commute: "latest a b = latest b a"
  by (cases a; cases b) (simp_all add: max.commute)

lemma map_of_fold_keep_latest:
  "distinct (map fst b) \<Longrightarrow>
   map_of (fold (\<lambda>(user, date). keep_latest user date) b a) k = latest (map_of a k) (map_of b k)"
proof (induction b arbitrary: a)
  case Nil
  show ?case by simp
next
  case (Cons p b)
  obtain u d where p: "p = (u, d)" by (cases p)
  from Cons.prems p have fresh: "map_of b u = None" and rest: "distinct (map fst b)"
    by (auto simp: map_of_eq_None_iff)
  show ?case
    using Cons.IH [OF rest, of "keep_latest u d a"] fresh
    by (simp add: p map_of_keep_latest)
qed

lemma map_of_merge:
  "distinct (map fst b) \<Longrightarrow> map_of (merge a b) k = latest (map_of a k) (map_of b k)"
  by (simp add: merge_def map_of_fold_keep_latest)

lemma distinct_merge: "distinct (map fst a) \<Longrightarrow> distinct (map fst (merge a b))"
  unfolding merge_def
  by (induction b arbitrary: a) (auto simp: distinct_keep_latest)

lemma fold_keep_latest_idle:
  "(\<And>u d. (u, d) \<in> set b \<Longrightarrow> \<exists>seen. map_of a u = Some seen \<and> \<not> seen < d) \<Longrightarrow>
   fold (\<lambda>(user, date). keep_latest user date) b a = a"
proof (induction b)
  case Nil
  show ?case by simp
next
  case (Cons p b)
  obtain u d where p: "p = (u, d)" by (cases p)
  from Cons.prems [of u d] p obtain seen where "map_of a u = Some seen" "\<not> seen < d"
    by auto
  then have "keep_latest u d a = a" by (rule keep_latest_idle)
  moreover have "fold (\<lambda>(user, date). keep_latest user date) b a = a"
    by (rule Cons.IH) (use Cons.prems in auto)
  ultimately show ?case by (simp add: p)
qed

lemma merge_absorbs:
  assumes "distinct (map fst b)"
  shows "merge (merge a b) b = merge a b"
proof -
  have "\<exists>seen. map_of (merge a b) u = Some seen \<and> \<not> seen < d" if "(u, d) \<in> set b" for u d
  proof -
    from that assms have "map_of b u = Some d" by simp
    then have "map_of (merge a b) u = latest (map_of a u) (Some d)"
      using assms by (simp add: map_of_merge)
    then show ?thesis by (cases "map_of a u") (auto simp: max_def)
  qed
  then show ?thesis
    unfolding merge_def [of "merge a b" b] by (rule fold_keep_latest_idle)
qed

lemma map_of_commit_activity:
  "map_of (commit_activity (CommitNode (Some user) date) a) k =
     (if k = user then latest (map_of a user) (Some date) else map_of a k)"
  by (simp add: map_of_keep_latest)

lemma map_of_authored_activity:
  "map_of (authored_activity (AuthoredNode (Some user) date) a) k =
     (if k = user then latest (map_of a user) (Some date) else map_of a k)"
  by (simp add: map_of_keep_latest)

lemma instant_with_offset: "instant ''2024-03-01T08:00:00+09:00'' = Some 63844930800"
  by (simp add: instant_def toordinal_def days_before_year_def days_before_month_def
      upt_conv_Cons eval_dates)

lemma instant_in_utc: "instant ''2024-03-01T00:30:00Z'' = Some 63844936200"
  by (simp add: instant_def toordinal_def days_before_year_def days_before_month_def
      upt_conv_Cons eval_dates)

text \<open>
  C1, as the specification states it, does not hold: the timestamp the merge keeps is the
  greater string, which need not be the later instant. A login is last seen at
  \<open>2024-03-01T00:30:00Z\<close>, and a commit authored with the offset \<open>+09:00\<close> comes with the
  date \<open>2024-03-01T08:00:00+09:00\<close>, which is 23:00 of the 29th of February in UTC, an
  hour and a half earlier. The strings agree up to \<open>T0\<close>, and then \<open>0\<close> is less than \<open>8\<close>:
  the merge of lines 197-199 and the loop body of lines 113-117 both replace the later
  instant by the earlier.
\<close>

theorem merge_keeps_the_earlier_instant:
  "merge [(''u'', ''2024-03-01T00:30:00Z'')] [(''u'', ''2024-03-01T08:00:00+09:00'')] =
     [(''u'', ''2024-03-01T08:00:00+09:00'')] \<and>
   commit_activity (CommitNode (Some ''u'') ''2024-03-01T08:00:00+09:00'')
     [(''u'', ''2024-03-01T00:30:00Z'')] = [(''u'', ''2024-03-01T08:00:00+09:00'')] \<and>
   instant ''2024-03-01T08:00:00+09:00'' = Some 63844930800 \<and>
   instant ''2024-03-01T00:30:00Z'' = Some 63844936200 \<and>
   chronologically_before ''2024-03-01T08:00:00+09:00'' ''2024-03-01T00:30:00Z''"
  by (simp add: merge_def keep_latest_def chronologically_before_def
      instant_with_offset instant_in_utc)

text \<open>
  C1, amended: the order is the order of strings. Merging is idempotent,
  \<open>merge (merge A B) B = merge A B\<close> (as lists, so also as dictionaries); it is commutative
  in the timestamp it leaves for each login; and that timestamp is the greater, in the
  order of strings, of the timestamps the two mappings hold for the login (the only one,
  when only one mapping has the login). \<open>A\<close> and \<open>B\<close> are dictionaries: no key twice. The
  loops over the nodes of a page (lines 113-117, 134-137, 155-158) make the same update
  for each node that has a login: the login gets the greater string of the timestamp it
  had and the timestamp of the node, every other login keeps its own, and a node without
  login changes nothing. The order of strings is the order in time for two timestamps
  \<^verbatim>\<open>YYYY-MM-DDTHH:MM:SS\<close> that end with the same offset, as all \<^verbatim>\<open>updatedAt\<close> do, which
  end with \<open>Z\<close>: then the greater string is the later instant.
\<close>

theorem merge_idempotent_commutative_string_max:
  assumes "distinct (map fst A)" and "distinct (map fst B)"
  shows "merge (merge A B) B = merge A B \<and>
         map_of (merge A B) login = map_of (merge B A) login \<and>
         map_of (merge A B) login = latest (map_of A login) (map_of B login) \<and>
         (\<forall>a b. map_of A login = Some a \<and> map_of B login = Some b \<longrightarrow>
                map_of (merge A B) login = Some (max a b)) \<and>
         distinct (map fst (merge A B)) \<and>
         map_of (commit_activity (CommitNode (Some user) date) A) login =
           (if login = user then latest (map_of A user) (Some date) else map_of A login) \<and>
         map_of (authored_activity (AuthoredNode (Some user) date) A) login =
           (if login = user then latest (map_of A user) (Some date) else map_of A login) \<and>
         commit_activity (CommitNode None date) A = A \<and>
         authored_activity (AuthoredNode None date) A = A \<and>
         (list_all is_digit [y1, y2, y3, y4, m1, m2, d1, d2, h1, h2, n1, n2, s1, s2] \<and>
          list_all is_digit [z1, z2, z3, z4, k1, k2, e1, e2, g1, g2, p1, p2, t1, t2] \<and>
          instant ([y1, y2, y3, y4, CHR ''-'', m1, m2, CHR ''-'', d1, d2, CHR ''T'',
              h1, h2, CHR '':'', n1, n2, CHR '':'', s1, s2] @ zone) = Some i \<and>
          instant ([z1, z2, z3, z4, CHR ''-'', k1, k2, CHR ''-'', e1, e2, CHR ''T'',
              g1, g2, CHR '':'', p1, p2, CHR '':'', t1, t2] @ zone) = Some j \<longrightarrow>
          ([y1, y2, y3, y4, CHR ''-'', m1, m2, CHR ''-'', d1, d2, CHR ''T'',
              h1, h2, CHR '':'', n1, n2, CHR '':'', s1, s2] @ zone < [z1, z2, z3, z4, CHR ''-'', k1, k2, CHR ''-'', e1, e2, CHR ''T'',
              g1, g2, CHR '':'', p1, p2, CHR '':'', t1, t2] @ zone) = (i < j) \<and>
          instant (max ([y1, y2, y3, y4, CHR ''-'', m1, m2, CHR ''-'', d1, d2, CHR ''T'',
              h1, h2, CHR '':'', n1, n2, CHR '':'', s1, s2] @ zone) ([z1, z2, z3, z4, CHR ''-'', k1, k2, CHR ''-'', e1, e2, CHR ''T'',
              g1, g2, CHR '':'', p1, p2, CHR '':'', t1, t2] @ zone)) = Some (max i j))"
proof -
  have "merge (merge A B) B = merge A B"
    using assms(2) by (rule merge_absorbs)
  moreover have "map_of (merge A B) login = map_of (merge B A) login"
    using assms by (simp add: map_of_merge latest_commute)
  moreover have "map_of (merge A B) login = latest (map_of A login) (map_of B login)"
    using assms(2) by (rule map_of_merge)
  moreover have "\<forall>a b. map_of A login = Some a \<and> map_of B login = Some b \<longrightarrow>
      map_of (merge A B) login = Some (max a b)"
  proof (intro allI impI, elim conjE)
    fix a b
    assume "map_of A login = Some a" and "map_of B login = Some b"
    then have "latest (map_of A login) (map_of B login) = Some (max a b)" by simp
    then show "map_of (merge A B) login = Some (max a b)"
      by (simp only: map_of_merge [OF assms(2)])
  qed
  moreover have "distinct (map fst (merge A B))"
    using assms(1) by (rule distinct_merge)
  moreover have "map_of (commit_activity (CommitNode (Some user) date) A) login =
      (if login = user then latest (map_of A user) (Some date) else map_of A login)"
    by (rule map_of_commit_activity)
  moreover have "map_of (authored_activity (AuthoredNode (Some user) date) A) login =
      (if login = user then latest (map_of A user) (Some date) else map_of A login)"
    by (rule map_of_authored_activity)
  moreover have "commit_activity (CommitNode None date) A = A"
    "authored_activity (AuthoredNode None date) A = A"
    by simp_all
  moreover have "list_all is_digit [y1, y2, y3, y4, m1, m2, d1, d2, h1, h2, n1, n2, s1, s2] \<and>
          list_all is_digit [z1, z2, z3, z4, k1, k2, e1, e2, g1, g2, p1, p2, t1, t2] \<and>
          instant ([y1, y2, y3, y4, CHR ''-'', m1, m2, CHR ''-'', d1, d2, CHR ''T'',
              h1, h2, CHR '':'', n1, n2, CHR '':'', s1, s2] @ zone) = Some i \<and>
          instant ([z1, z2, z3, z4, CHR ''-'', k1, k2, CHR ''-'', e1, e2, CHR ''T'',
              g1, g2, CHR '':'', p1, p2, CHR '':'', t1, t2] @ zone) = Some j \<longrightarrow>
          ([y1, y2, y3, y4, CHR ''-'', m1, m2, CHR ''-'', d1, d2, CHR ''T'',
              h1, h2, CHR '':'', n1, n2, CHR '':'', s1, s2] @ zone < [z1, z2, z3, z4, CHR ''-'', k1, k2, CHR ''-'', e1, e2, CHR ''T'',
              g1, g2, CHR '':'', p1, p2, CHR '':'', t1, t2] @ zone) = (i < j) \<and>
          instant (max ([y1, y2, y3, y4, CHR ''-'', m1, m2, CHR ''-'', d1, d2, CHR ''T'',
              h1, h2, CHR '':'', n1, n2, CHR '':'', s1, s2] @ zone) ([z1, z2, z3, z4, CHR ''-'', k1, k2, CHR ''-'', e1, e2, CHR ''T'',
              g1, g2, CHR '':'', p1, p2, CHR '':'', t1, t2] @ zone)) = Some (max i j)"
  proof (intro impI, elim conjE, intro conjI)
    assume a: "list_all is_digit [y1, y2, y3, y4, m1, m2, d1, d2, h1, h2, n1, n2, s1, s2]"
      "list_all is_digit [z1, z2, z3, z4, k1, k2, e1, e2, g1, g2, p1, p2, t1, t2]"
      "instant ([y1, y2, y3, y4, CHR ''-'', m1, m2, CHR ''-'', d1, d2, CHR ''T'',
              h1, h2, CHR '':'', n1, n2, CHR '':'', s1, s2] @ zone) = Some i"
      "instant ([z1, z2, z3, z4, CHR ''-'', k1, k2, CHR ''-'', e1, e2, CHR ''T'',
              g1, g2, CHR '':'', p1, p2, CHR '':'', t1, t2] @ zone) = Some j"
    from a show "([y1, y2, y3, y4, CHR ''-'', m1, m2, CHR ''-'', d1, d2, CHR ''T'',
              h1, h2, CHR '':'', n1, n2, CHR '':'', s1, s2] @ zone < [z1, z2, z3, z4, CHR ''-'', k1, k2, CHR ''-'', e1, e2, CHR ''T'',
              g1, g2, CHR '':'', p1, p2, CHR '':'', t1, t2] @ zone) = (i < j)"
      by (rule same_offset_order)
    from a show "instant (max ([y1, y2, y3, y4, CHR ''-'', m1, m2, CHR ''-'', d1, d2, CHR ''T'',
              h1, h2, CHR '':'', n1, n2, CHR '':'', s1, s2] @ zone) ([z1, z2, z3, z4, CHR ''-'', k1, k2, CHR ''-'', e1, e2, CHR ''T'',
              g1, g2, CHR '':'', p1, p2, CHR '':'', t1, t2] @ zone)) = Some (max i j)"
      by (rule same_offset_max)
  qed
  ultimately show ?thesis by (intro conjI)
qed

theorem merge_idempotent_commutative_string_max_witness:
  "distinct (map fst [(''alice'', ''2024-01-10T00:00:00Z''), (''bob'', ''2024-02-01T00:00:00Z'')]) \<and>
   distinct (map fst [(''bob'', ''2024-03-05T09:30:00Z''), (''carol'', ''2023-12-24T18:00:00Z'')]) \<and>
   merge [(''alice'', ''2024-01-10T00:00:00Z''), (''bob'', ''2024-02-01T00:00:00Z'')]
         [(''bob'', ''2024-03-05T09:30:00Z''), (''carol'', ''2023-12-24T18:00:00Z'')]
     = [(''alice'', ''2024-01-10T00:00:00Z''), (''bob'', ''2024-03-05T09:30:00Z''),
        (''carol'', ''2023-12-24T18:00:00Z'')] \<and>
   map_of (merge [(''bob'', ''2024-03-05T09:30:00Z''), (''carol'', ''2023-12-24T18:00:00Z'')]
                 [(''alice'', ''2024-01-10T00:00:00Z''), (''bob'', ''2024-02-01T00:00:00Z'')]) ''bob''
     = Some ''2024-03-05T09:30:00Z'' \<and>
   commit_activity (CommitNode (Some ''bob'') ''2024-03-05T09:30:00Z'')
     [(''alice'', ''2024-01-10T00:00:00Z''), (''bob'', ''2024-02-01T00:00:00Z'')]
     = [(''alice'', ''2024-01-10T00:00:00Z''), (''bob'', ''2024-03-05T09:30:00Z'')] \<and>
   instant ''2024-02-01T00:00:00Z'' = Some 63842428800 \<and>
   instant ''2024-03-05T09:30:00Z'' = Some 63845314200 \<and>
   instant (max ''2024-02-01T00:00:00Z'' ''2024-03-05T09:30:00Z'') = Some 63845314200 \<and>
   chronologically_before ''2024-02-01T00:00:00Z'' ''2024-03-05T09:30:00Z''"
proof -
  have i: "instant ''2024-02-01T00:00:00Z'' = Some 63842428800"
    by (simp add: instant_def toordinal_def days_before_year_def days_before_month_def
        upt_conv_Cons eval_dates)
  have j: "instant ''2024-03-05T09:30:00Z'' = Some 63845314200"
    by (simp add: instant_def toordinal_def days_before_year_def days_before_month_def
        upt_conv_Cons eval_dates)
  from merge_idempotent_commutative_string_max
    [where A = "[(''alice'', ''2024-01-10T00:00:00Z''), (''bob'', ''2024-02-01T00:00:00Z'')]"
       and B = "[(''bob'', ''2024-03-05T09:30:00Z''), (''carol'', ''2023-12-24T18:00:00Z'')]"
       and login = "''bob''" and user = "''bob''" and date = "''2024-03-05T09:30:00Z''"
       and ?y1.0 = "CHR ''2''" and ?y2.0 = "CHR ''0''" and ?y3.0 = "CHR ''2''" and ?y4.0 = "CHR ''4''"
       and ?m1.0 = "CHR ''0''" and ?m2.0 = "CHR ''2''" and ?d1.0 = "CHR ''0''" and ?d2.0 = "CHR ''1''"
       and ?h1.0 = "CHR ''0''" and ?h2.0 = "CHR ''0''" and ?n1.0 = "CHR ''0''" and ?n2.0 = "CHR ''0''"
       and ?s1.0 = "CHR ''0''" and ?s2.0 = "CHR ''0''"
       and ?z1.0 = "CHR ''2''" and ?z2.0 = "CHR ''0''" and ?z3.0 = "CHR ''2''" and ?z4.0 = "CHR ''4''"
       and ?k1.0 = "CHR ''0''" and ?k2.0 = "CHR ''3''" and ?e1.0 = "CHR ''0''" and ?e2.0 = "CHR ''5''"
       and ?g1.0 = "CHR ''0''" and ?g2.0 = "CHR ''9''" and ?p1.0 = "CHR ''3''" and ?p2.0 = "CHR ''0''"
       and ?t1.0 = "CHR ''0''" and ?t2.0 = "CHR ''0''"
       and zone = "''Z''" and i = 63842428800 and j = 63845314200]
  show ?thesis
    by (simp add: merge_def keep_latest_def is_digit_def chronologically_before_def i j)
qed

section \<open>Pagination\<close>

text \<open>One call of \<^const>\<open>run_query\<close>, by the response that is next.\<close>

lemma run_query_Data:
  "pending w = Data d # rest \<Longrightarrow>
   run_query q vs w = Some (Inr d, w\<lparr>pending := rest, sent := sent w @ [Request q vs]\<rparr>)"
  by (simp add: run_query_def)

lemma run_query_BadStatus:
  "pending w = BadStatus # rest \<Longrightarrow>
   run_query q vs w =
     Some (Inl HTTPError, w\<lparr>pending := rest, sent := sent w @ [Request q vs]\<rparr>)"
  by (simp add: run_query_def)

lemma run_query_Errors:
  "pending w = Errors # rest \<Longrightarrow>
   run_query q vs w =
     Some (Inl GraphQLError,
       print GraphQLErrorResponse (w\<lparr>pending := rest, sent := sent w @ [Request q vs]\<rparr>))"
  by (simp add: run_query_def)

lemma run_query_Nil: "pending w = [] \<Longrightarrow> run_query q vs w = None"
  by (simp add: run_query_def)

text \<open>
  Each loop, started with any cursor and any accumulator, on a sequence of pages of which
  all but the last announce a next page: it takes the pages in order, sends the cursor it
  was started with and then the \<^verbatim>\<open>endCursor\<close> of each page but the last, and leaves the
  responses after the last page where they are.
\<close>

lemma members_while_pages:
  "pending w =
     map (\<lambda>p. Data (MembersWithRole (fst p) (PageInfo True (snd p)))) pages @
     Data (MembersWithRole nodes (PageInfo False c)) # rest \<Longrightarrow>
   members_while org cursor members w =
     Some (Inr (members @ concat (map fst pages) @ nodes),
       w\<lparr>pending := rest,
         sent := sent w @
           map (\<lambda>cur. Request members_query
               [(''org'', Some org), (''cursor'', cur)])
             (cursor # map snd pages)\<rparr>)"
proof (induction pages arbitrary: cursor members w)
  case Nil
  then show ?case
    by (subst members_while.simps) (simp add: run_query_Data)
next
  case (Cons p pages)
  let ?w' = "w\<lparr>pending := tl (pending w),
    sent := sent w @ [Request members_query
      [(''org'', Some org), (''cursor'', cursor)]]\<rparr>"
  from Cons.prems have step:
    "members_while org cursor members w = members_while org (snd p) (members @ fst p) ?w'"
    by (subst members_while.simps) (simp add: run_query_Data)
  from Cons.prems have "pending ?w' =
     map (\<lambda>p. Data (MembersWithRole (fst p) (PageInfo True (snd p)))) pages @
     Data (MembersWithRole nodes (PageInfo False c)) # rest"
    by simp
  from Cons.IH [OF this] show ?case
    by (simp add: step)
qed

lemma repositories_while_pages:
  "pending w =
     map (\<lambda>p. Data (Repositories (fst p) (PageInfo True (snd p)))) pages @
     Data (Repositories nodes (PageInfo False c)) # rest \<Longrightarrow>
   repositories_while org cursor repos w =
     Some (Inr (repos @ concat (map fst pages) @ nodes),
       w\<lparr>pending := rest,
         sent := sent w @
           map (\<lambda>cur. Request repositories_query
               [(''org'', Some org), (''cursor'', cur)])
             (cursor # map snd pages)\<rparr>)"
proof (induction pages arbitrary: cursor repos w)
  case Nil
  then show ?case
    by (subst repositories_while.simps) (simp add: run_query_Data)
next
  case (Cons p pages)
  let ?w' = "w\<lparr>pending := tl (pending w),
    sent := sent w @ [Request repositories_query
      [(''org'', Some org), (''cursor'', cursor)]]\<rparr>"
  from Cons.prems have step:
    "repositories_while org cursor repos w = repositories_while org (snd p) (repos @ fst p) ?w'"
    by (subst repositories_while.simps) (simp add: run_query_Data)
  from Cons.prems have "pending ?w' =
     map (\<lambda>p. Data (Repositories (fst p) (PageInfo True (snd p)))) pages @
     Data (Repositories nodes (PageInfo False c)) # rest"
    by simp
  from Cons.IH [OF this] show ?case
    by (simp add: step)
qed

lemma branches_while_pages:
  "pending w =
     map (\<lambda>p. Data (Refs (fst p) (PageInfo True (snd p)))) pages @
     Data (Refs nodes (PageInfo False c)) # rest \<Longrightarrow>
   branches_while repo org cursor branches w =
     Some (Inr (branches @ concat (map fst pages) @ nodes),
       w\<lparr>pending := rest,
         sent := sent w @
           map (\<lambda>cur. Request branches_query
               [(''org'', Some org), (''repo'', Some repo), (''cursor'', cur)])
             (cursor # map snd pages)\<rparr>)"
proof (induction pages arbitrary: cursor branches w)
  case Nil
  then show ?case
    by (subst branches_while.simps) (simp add: run_query_Data)
next
  case (Cons p pages)
  let ?w' = "w\<lparr>pending := tl (pending w),
    sent := sent w @ [Request branches_query
      [(''org'', Some org), (''repo'', Some repo), (''cursor'', cursor)]]\<rparr>"
  from Cons.prems have step:
    "branches_while repo org cursor branches w = branches_while repo org (snd p) (branches @ fst p) ?w'"
    by (subst branches_while.simps) (simp add: run_query_Data)
  from Cons.prems have "pending ?w' =
     map (\<lambda>p. Data (Refs (fst p) (PageInfo True (snd p)))) pages @
     Data (Refs nodes (PageInfo False c)) # rest"
    by simp
  from Cons.IH [OF this] show ?case
    by (simp add: step)
qed

lemma commits_while_pages:
  "pending w =
     map (\<lambda>p. Data (RepositoryRef (Some (Ref (Some (History (fst p) (PageInfo True (snd p)))))))) pages @
     Data (RepositoryRef (Some (Ref (Some (History nodes (PageInfo False c)))))) # rest \<Longrightarrow>
   commits_while org repo branch since_iso cursor activity w =
     Some (Inr (fold commit_activity (concat (map fst pages) @ nodes) activity),
       w\<lparr>pending := rest,
         sent := sent w @
           map (\<lambda>cur. Request q_commits
               [(''owner'', Some org), (''name'', Some repo), (''branch'', Some branch),
                (''since'', Some since_iso), (''cursor'', cur)])
             (cursor # map snd pages)\<rparr>)"
proof (induction pages arbitrary: cursor activity w)
  case Nil
  then show ?case
    by (subst commits_while.simps) (simp add: run_query_Data)
next
  case (Cons p pages)
  let ?w' = "w\<lparr>pending := tl (pending w),
    sent := sent w @ [Request q_commits
      [(''owner'', Some org), (''name'', Some repo), (''branch'', Some branch),
                (''since'', Some since_iso), (''cursor'', cursor)]]\<rparr>"
  from Cons.prems have step:
    "commits_while org repo branch since_iso cursor activity w = commits_while org repo branch since_iso (snd p) (fold commit_activity (fst p) activity) ?w'"
    by (subst commits_while.simps) (simp add: run_query_Data)
  from Cons.prems have "pending ?w' =
     map (\<lambda>p. Data (RepositoryRef (Some (Ref (Some (History (fst p) (PageInfo True (snd p)))))))) pages @
     Data (RepositoryRef (Some (Ref (Some (History nodes (PageInfo False c)))))) # rest"
    by simp
  from Cons.IH [OF this] show ?case
    by (simp add: step)
qed

lemma issues_while_pages:
  "pending w =
     map (\<lambda>p. Data (Issues (fst p) (PageInfo True (snd p)))) pages @
     Data (Issues nodes (PageInfo False c)) # rest \<Longrightarrow>
   issues_while org repo cursor activity w =
     Some (Inr (fold authored_activity (concat (map fst pages) @ nodes) activity),
       w\<lparr>pending := rest,
         sent := sent w @
           map (\<lambda>cur. Request q_issues
               [(''owner'', Some org), (''name'', Some repo), (''cursor'', cur)])
             (cursor # map snd pages)\<rparr>)"
proof (induction pages arbitrary: cursor activity w)
  case Nil
  then show ?case
    by (subst issues_while.simps) (simp add: run_query_Data)
next
  case (Cons p pages)
  let ?w' = "w\<lparr>pending := tl (pending w),
    sent := sent w @ [Request q_issues
      [(''owner'', Some org), (''name'', Some repo), (''cursor'', cursor)]]\<rparr>"
  from Cons.prems have step:
    "issues_while org repo cursor activity w = issues_while org repo (snd p) (fold authored_activity (fst p) activity) ?w'"
    by (subst issues_while.simps) (simp add: run_query_Data)
  from Cons.prems have "pending ?w' =
     map (\<lambda>p. Data (Issues (fst p) (PageInfo True (snd p)))) pages @
     Data (Issues nodes (PageInfo False c)) # rest"
    by simp
  from Cons.IH [OF this] show ?case
    by (simp add: step)
qed

lemma prs_while_pages:
  "pending w =
     map (\<lambda>p. Data (PullRequests (fst p) (PageInfo True (snd p)))) pages @
     Data (PullRequests nodes (PageInfo False c)) # rest \<Longrightarrow>
   prs_while org repo cursor activity w =
     Some (Inr (fold authored_activity (concat (map fst pages) @ nodes) activity),
       w\<lparr>pending := rest,
         sent := sent w @
           map (\<lambda>cur. Request q_prs
               [(''owner'', Some org), (''name'', Some repo), (''cursor'', cur)])
             (cursor # map snd pages)\<rparr>)"
proof (induction pages arbitrary: cursor activity w)
  case Nil
  then show ?case
    by (subst prs_while.simps) (simp add: run_query_Data)
next
  case (Cons p pages)
  let ?w' = "w\<lparr>pending := tl (pending w),
    sent := sent w @ [Request q_prs
      [(''owner'', Some org), (''name'', Some repo), (''cursor'', cursor)]]\<rparr>"
  from Cons.prems have step:
    "prs_while org repo cursor activity w = prs_while org repo (snd p) (fold authored_activity (fst p) activity) ?w'"
    by (subst prs_while.simps) (simp add: run_query_Data)
  from Cons.prems have "pending ?w' =
     map (\<lambda>p. Data (PullRequests (fst p) (PageInfo True (snd p)))) pages @
     Data (PullRequests nodes (PageInfo False c)) # rest"
    by simp
  from Cons.IH [OF this] show ?case
    by (simp add: step)
qed

text \<open>
  The three loops of \<^const>\<open>collect_branch_activity\<close> in a row: the pages of the commit
  history, then those of the issues, then those of the pull requests.
\<close>

lemma collect_branch_activity_pages:
  assumes "pending w =
     map (\<lambda>p. Data (RepositoryRef (Some (Ref (Some (History (fst p) (PageInfo True (snd p)))))))) cpages @
     Data (RepositoryRef (Some (Ref (Some (History cnodes (PageInfo False cc)))))) #
     map (\<lambda>p. Data (Issues (fst p) (PageInfo True (snd p)))) ipages @
     Data (Issues inodes (PageInfo False ic)) #
     map (\<lambda>p. Data (PullRequests (fst p) (PageInfo True (snd p)))) ppages @
     Data (PullRequests pnodes (PageInfo False pc)) # rest"
  shows "collect_branch_activity org repo branch since_iso w =
     Some (Inr (fold authored_activity (concat (map fst ppages) @ pnodes)
                 (fold authored_activity (concat (map fst ipages) @ inodes)
                   (fold commit_activity (concat (map fst cpages) @ cnodes) []))),
       w\<lparr>pending := rest,
         sent := sent w @
           map (\<lambda>cur. Request q_commits
                 [(''owner'', Some org), (''name'', Some repo), (''branch'', Some branch),
                  (''since'', Some since_iso), (''cursor'', cur)])
             (None # map snd cpages) @
           map (\<lambda>cur. Request q_issues
                 [(''owner'', Some org), (''name'', Some repo), (''cursor'', cur)])
             (None # map snd ipages) @
           map (\<lambda>cur. Request q_prs
                 [(''owner'', Some org), (''name'', Some repo), (''cursor'', cur)])
             (None # map snd ppages)\<rparr>)"
proof -
  let ?irest = "map (\<lambda>p. Data (PullRequests (fst p) (PageInfo True (snd p)))) ppages @
     Data (PullRequests pnodes (PageInfo False pc)) # rest"
  let ?crest = "map (\<lambda>p. Data (Issues (fst p) (PageInfo True (snd p)))) ipages @
     Data (Issues inodes (PageInfo False ic)) # ?irest"
  let ?a1 = "fold commit_activity (concat (map fst cpages) @ cnodes) []"
  let ?a2 = "fold authored_activity (concat (map fst ipages) @ inodes) ?a1"
  let ?w1 = "w\<lparr>pending := ?crest,
         sent := sent w @
           map (\<lambda>cur. Request q_commits
                 [(''owner'', Some org), (''name'', Some repo), (''branch'', Some branch),
                  (''since'', Some since_iso), (''cursor'', cur)])
             (None # map snd cpages)\<rparr>"
  let ?w2 = "?w1\<lparr>pending := ?irest,
         sent := sent ?w1 @
           map (\<lambda>cur. Request q_issues
                 [(''owner'', Some org), (''name'', Some repo), (''cursor'', cur)])
             (None # map snd ipages)\<rparr>"
  have c: "commits_while org repo branch since_iso None [] w = Some (Inr ?a1, ?w1)"
    using assms by (rule commits_while_pages)
  have "pending ?w1 = map (\<lambda>p. Data (Issues (fst p) (PageInfo True (snd p)))) ipages @
     Data (Issues inodes (PageInfo False ic)) # ?irest"
    by simp
  then have i: "issues_while org repo None ?a1 ?w1 = Some (Inr ?a2, ?w2)"
    by (rule issues_while_pages)
  have "pending ?w2 = ?irest" by simp
  then have p: "prs_while org repo None ?a2 ?w2 =
      Some (Inr (fold authored_activity (concat (map fst ppages) @ pnodes) ?a2),
        ?w2\<lparr>pending := rest,
          sent := sent ?w2 @
            map (\<lambda>cur. Request q_prs
                  [(''owner'', Some org), (''name'', Some repo), (''cursor'', cur)])
              (None # map snd ppages)\<rparr>)"
    by (rule prs_while_pages)
  show ?thesis
    unfolding collect_branch_activity_def
    by (simp only: c i p option.case prod.case sum.case) simp
qed

text \<open>
  C2. Each of the four traversals (members, repositories, branches, and the history of a
  branch with its three loops), on any sequence of pages that ends with the first page
  whose \<^verbatim>\<open>hasNextPage\<close> is false: the result is made of the nodes of all the pages in the
  order of arrival; the first request carries no cursor and each later one the
  \<^verbatim>\<open>endCursor\<close> of the page before; there is one request for each page and none after the
  last, whose \<^verbatim>\<open>endCursor\<close> is never sent; the responses after the last page are not
  touched.
\<close>

theorem traversals_accumulate_all_pages:
  "(pending w =
      map (\<lambda>p. Data (MembersWithRole (fst p) (PageInfo True (snd p)))) pages @
      Data (MembersWithRole nodes (PageInfo False c)) # rest \<longrightarrow>
    get_all_org_members_for_org org w =
      Some (Inr (concat (map fst pages) @ nodes),
        w\<lparr>pending := rest,
          sent := sent w @
            map (\<lambda>cur. Request members_query [(''org'', Some org), (''cursor'', cur)])
              (None # map snd pages)\<rparr>)) \<and>
   (pending w =
      map (\<lambda>p. Data (Repositories (fst p) (PageInfo True (snd p)))) pages @
      Data (Repositories nodes (PageInfo False c)) # rest \<longrightarrow>
    get_repositories_for_org org w =
      Some (Inr (concat (map fst pages) @ nodes),
        w\<lparr>pending := rest,
          sent := sent w @
            map (\<lambda>cur. Request repositories_query [(''org'', Some org), (''cursor'', cur)])
              (None # map snd pages)\<rparr>)) \<and>
   (pending w =
      map (\<lambda>p. Data (Refs (fst p) (PageInfo True (snd p)))) pages @
      Data (Refs nodes (PageInfo False c)) # rest \<longrightarrow>
    get_all_branches repo org w =
      Some (Inr (concat (map fst pages) @ nodes),
        w\<lparr>pending := rest,
          sent := sent w @
            map (\<lambda>cur. Request branches_query
                  [(''org'', Some org), (''repo'', Some repo), (''cursor'', cur)])
              (None # map snd pages)\<rparr>)) \<and>
   (pending w =
      map (\<lambda>p. Data (RepositoryRef (Some (Ref (Some
            (History (fst p) (PageInfo True (snd p)))))))) cpages @
      Data (RepositoryRef (Some (Ref (Some (History cnodes (PageInfo False cc)))))) #
      map (\<lambda>p. Data (Issues (fst p) (PageInfo True (snd p)))) ipages @
      Data (Issues inodes (PageInfo False ic)) #
      map (\<lambda>p. Data (PullRequests (fst p) (PageInfo True (snd p)))) ppages @
      Data (PullRequests pnodes (PageInfo False pc)) # rest \<longrightarrow>
    collect_branch_activity org repo branch since_iso w =
      Some (Inr (fold authored_activity (concat (map fst ppages) @ pnodes)
                  (fold authored_activity (concat (map fst ipages) @ inodes)
                    (fold commit_activity (concat (map fst cpages) @ cnodes) []))),
        w\<lparr>pending := rest,
          sent := sent w @
            map (\<lambda>cur. Request q_commits
                  [(''owner'', Some org), (''name'', Some repo), (''branch'', Some branch),
                   (''since'', Some since_iso), (''cursor'', cur)])
              (None # map snd cpages) @
            map (\<lambda>cur. Request q_issues
                  [(''owner'', Some org), (''name'', Some repo), (''cursor'', cur)])
              (None # map snd ipages) @
            map (\<lambda>cur. Request q_prs
                  [(''owner'', Some org), (''name'', Some repo), (''cursor'', cur)])
              (None # map snd ppages)\<rparr>))"
proof (intro conjI impI)
  assume "pending w =
      map (\<lambda>p. Data (MembersWithRole (fst p) (PageInfo True (snd p)))) pages @
      Data (MembersWithRole nodes (PageInfo False c)) # rest"
  from members_while_pages [OF this, of org None "[]"]
  show "get_all_org_members_for_org org w =
      Some (Inr (concat (map fst pages) @ nodes),
        w\<lparr>pending := rest,
          sent := sent w @
            map (\<lambda>cur. Request members_query [(''org'', Some org), (''cursor'', cur)])
              (None # map snd pages)\<rparr>)"
    by (simp add: get_all_org_members_for_org_def)
next
  assume "pending w =
      map (\<lambda>p. Data (Repositories (fst p) (PageInfo True (snd p)))) pages @
      Data (Repositories nodes (PageInfo False c)) # rest"
  from repositories_while_pages [OF this, of org None "[]"]
  show "get_repositories_for_org org w =
      Some (Inr (concat (map fst pages) @ nodes),
        w\<lparr>pending := rest,
          sent := sent w @
            map (\<lambda>cur. Request repositories_query [(''org'', Some org), (''cursor'', cur)])
              (None # map snd pages)\<rparr>)"
    by (simp add: get_repositories_for_org_def)
next
  assume "pending w =
      map (\<lambda>p. Data (Refs (fst p) (PageInfo True (snd p)))) pages @
      Data (Refs nodes (PageInfo False c)) # rest"
  from branches_while_pages [OF this, of repo org None "[]"]
  show "get_all_branches repo org w =
      Some (Inr (concat (map fst pages) @ nodes),
        w\<lparr>pending := rest,
          sent := sent w @
            map (\<lambda>cur. Request branches_query
                  [(''org'', Some org), (''repo'', Some repo), (''cursor'', cur)])
              (None # map snd pages)\<rparr>)"
    by (simp add: get_all_branches_def)
next
  assume "pending w =
      map (\<lambda>p. Data (RepositoryRef (Some (Ref (Some
            (History (fst p) (PageInfo True (snd p)))))))) cpages @
      Data (RepositoryRef (Some (Ref (Some (History cnodes (PageInfo False cc)))))) #
      map (\<lambda>p. Data (Issues (fst p) (PageInfo True (snd p)))) ipages @
      Data (Issues inodes (PageInfo False ic)) #
      map (\<lambda>p. Data (PullRequests (fst p) (PageInfo True (snd p)))) ppages @
      Data (PullRequests pnodes (PageInfo False pc)) # rest"
  then show "collect_branch_activity org repo branch since_iso w =
      Some (Inr (fold authored_activity (concat (map fst ppages) @ pnodes)
                  (fold authored_activity (concat (map fst ipages) @ inodes)
                    (fold commit_activity (concat (map fst cpages) @ cnodes) []))),
        w\<lparr>pending := rest,
          sent := sent w @
            map (\<lambda>cur. Request q_commits
                  [(''owner'', Some org), (''name'', Some repo), (''branch'', Some branch),
                   (''since'', Some since_iso), (''cursor'', cur)])
              (None # map snd cpages) @
            map (\<lambda>cur. Request q_issues
                  [(''owner'', Some org), (''name'', Some repo), (''cursor'', cur)])
              (None # map snd ipages) @
            map (\<lambda>cur. Request q_prs
                  [(''owner'', Some org), (''name'', Some repo), (''cursor'', cur)])
              (None # map snd ppages)\<rparr>)"
    by (rule collect_branch_activity_pages)
qed

text \<open>
  Two pages of members, of repositories and of branches, each followed by a response
  that must stay; and a branch with two pages of commits, one of issues and two of pull
  requests.
\<close>

theorem traversals_accumulate_all_pages_witness:
  "get_all_org_members_for_org ''acme''
     \<lparr>pending = [Data (MembersWithRole [''alice'', ''bob''] (PageInfo True (Some ''m1''))),
                 Data (MembersWithRole [''carol''] (PageInfo False (Some ''m2''))),
                 BadStatus],
      sent = [], console = [], files = []\<rparr> =
   Some (Inr [''alice'', ''bob'', ''carol''],
     \<lparr>pending = [BadStatus],
      sent = [Request members_query [(''org'', Some ''acme''), (''cursor'', None)],
              Request members_query [(''org'', Some ''acme''), (''cursor'', Some ''m1'')]],
      console = [], files = []\<rparr>) \<and>
   get_repositories_for_org ''acme''
     \<lparr>pending = [Data (Repositories [''x''] (PageInfo True (Some ''r1''))),
                 Data (Repositories [''y'', ''z''] (PageInfo False None)),
                 Errors],
      sent = [], console = [], files = []\<rparr> =
   Some (Inr [''x'', ''y'', ''z''],
     \<lparr>pending = [Errors],
      sent = [Request repositories_query [(''org'', Some ''acme''), (''cursor'', None)],
              Request repositories_query [(''org'', Some ''acme''), (''cursor'', Some ''r1'')]],
      console = [], files = []\<rparr>) \<and>
   get_all_branches ''x'' ''acme''
     \<lparr>pending = [Data (Refs [''main''] (PageInfo True (Some ''b1''))),
                 Data (Refs [''dev''] (PageInfo False (Some ''b2''))),
                 Data (Refs [''other''] (PageInfo False None))],
      sent = [], console = [], files = []\<rparr> =
   Some (Inr [''main'', ''dev''],
     \<lparr>pending = [Data (Refs [''other''] (PageInfo False None))],
      sent = [Request branches_query
                [(''org'', Some ''acme''), (''repo'', Some ''x''), (''cursor'', None)],
              Request branches_query
                [(''org'', Some ''acme''), (''repo'', Some ''x''), (''cursor'', Some ''b1'')]],
      console = [], files = []\<rparr>) \<and>
   collect_branch_activity ''acme'' ''x'' ''main'' ''2023-11-16T12:00:00+00:00''
     \<lparr>pending =
        [Data (RepositoryRef (Some (Ref (Some (History
           [CommitNode (Some ''alice'') ''2024-01-10T00:00:00Z'']
           (PageInfo True (Some ''h1''))))))),
         Data (RepositoryRef (Some (Ref (Some (History
           [CommitNode None ''2024-01-09T00:00:00Z'',
            CommitNode (Some ''alice'') ''2024-01-08T00:00:00Z'']
           (PageInfo False (Some ''h2''))))))),
         Data (Issues [AuthoredNode (Some ''bob'') ''2024-02-01T00:00:00Z'']
           (PageInfo False None)),
         Data (PullRequests [AuthoredNode (Some ''alice'') ''2024-03-01T00:00:00Z'']
           (PageInfo True (Some ''p1''))),
         Data (PullRequests [AuthoredNode None ''2019-05-05T00:00:00Z'']
           (PageInfo False (Some ''p2''))),
         BadStatus],
      sent = [], console = [], files = []\<rparr> =
   Some (Inr [(''alice'', ''2024-03-01T00:00:00Z''), (''bob'', ''2024-02-01T00:00:00Z'')],
     \<lparr>pending = [BadStatus],
      sent =
        [Request q_commits
           [(''owner'', Some ''acme''), (''name'', Some ''x''), (''branch'', Some ''main''),
            (''since'', Some ''2023-11-16T12:00:00+00:00''), (''cursor'', None)],
         Request q_commits
           [(''owner'', Some ''acme''), (''name'', Some ''x''), (''branch'', Some ''main''),
            (''since'', Some ''2023-11-16T12:00:00+00:00''), (''cursor'', Some ''h1'')],
         Request q_issues
           [(''owner'', Some ''acme''), (''name'', Some ''x''), (''cursor'', None)],
         Request q_prs
           [(''owner'', Some ''acme''), (''name'', Some ''x''), (''cursor'', None)],
         Request q_prs
           [(''owner'', Some ''acme''), (''name'', Some ''x''), (''cursor'', Some ''p1'')]],
      console = [], files = []\<rparr>)"
proof -
  have m: "get_all_org_members_for_org ''acme''
     \<lparr>pending = [Data (MembersWithRole [''alice'', ''bob''] (PageInfo True (Some ''m1''))),
                 Data (MembersWithRole [''carol''] (PageInfo False (Some ''m2''))),
                 BadStatus],
      sent = [], console = [], files = []\<rparr> =
   Some (Inr [''alice'', ''bob'', ''carol''],
     \<lparr>pending = [BadStatus],
      sent = [Request members_query [(''org'', Some ''acme''), (''cursor'', None)],
              Request members_query [(''org'', Some ''acme''), (''cursor'', Some ''m1'')]],
      console = [], files = []\<rparr>)"
    using traversals_accumulate_all_pages
      [where w = "\<lparr>pending =
                 [Data (MembersWithRole [''alice'', ''bob''] (PageInfo True (Some ''m1''))),
                  Data (MembersWithRole [''carol''] (PageInfo False (Some ''m2''))),
                  BadStatus],
               sent = [], console = [], files = []\<rparr>"
         and pages = "[([''alice'', ''bob''], Some ''m1'')]" and nodes = "[''carol'']"
         and c = "Some ''m2''" and rest = "[BadStatus]" and org = "''acme''"]
    by simp
  have r: "get_repositories_for_org ''acme''
     \<lparr>pending = [Data (Repositories [''x''] (PageInfo True (Some ''r1''))),
                 Data (Repositories [''y'', ''z''] (PageInfo False None)),
                 Errors],
      sent = [], console = [], files = []\<rparr> =
   Some (Inr [''x'', ''y'', ''z''],
     \<lparr>pending = [Errors],
      sent = [Request repositories_query [(''org'', Some ''acme''), (''cursor'', None)],
              Request repositories_query [(''org'', Some ''acme''), (''cursor'', Some ''r1'')]],
      console = [], files = []\<rparr>)"
    using traversals_accumulate_all_pages
      [where w = "\<lparr>pending = [Data (Repositories [''x''] (PageInfo True (Some ''r1''))),
                 Data (Repositories [''y'', ''z''] (PageInfo False None)),
                 Errors],
               sent = [], console = [], files = []\<rparr>"
         and pages = "[([''x''], Some ''r1'')]" and nodes = "[''y'', ''z'']"
         and c = None and rest = "[Errors]" and org = "''acme''"]
    by simp
  have b: "get_all_branches ''x'' ''acme''
     \<lparr>pending = [Data (Refs [''main''] (PageInfo True (Some ''b1''))),
                 Data (Refs [''dev''] (PageInfo False (Some ''b2''))),
                 Data (Refs [''other''] (PageInfo False None))],
      sent = [], console = [], files = []\<rparr> =
   Some (Inr [''main'', ''dev''],
     \<lparr>pending = [Data (Refs [''other''] (PageInfo False None))],
      sent = [Request branches_query
                [(''org'', Some ''acme''), (''repo'', Some ''x''), (''cursor'', None)],
              Request branches_query
                [(''org'', Some ''acme''), (''repo'', Some ''x''), (''cursor'', Some ''b1'')]],
      console = [], files = []\<rparr>)"
    using traversals_accumulate_all_pages
      [where w = "\<lparr>pending = [Data (Refs [''main''] (PageInfo True (Some ''b1''))),
                 Data (Refs [''dev''] (PageInfo False (Some ''b2''))),
                 Data (Refs [''other''] (PageInfo False None))],
               sent = [], console = [], files = []\<rparr>"
         and pages = "[([''main''], Some ''b1'')]" and nodes = "[''dev'']"
         and c = "Some ''b2''" and rest = "[Data (Refs [''other''] (PageInfo False None))]"
         and org = "''acme''" and repo = "''x''"]
    by simp
  have h: "collect_branch_activity ''acme'' ''x'' ''main'' ''2023-11-16T12:00:00+00:00''
     \<lparr>pending =
        [Data (RepositoryRef (Some (Ref (Some (History
           [CommitNode (Some ''alice'') ''2024-01-10T00:00:00Z'']
           (PageInfo True (Some ''h1''))))))),
         Data (RepositoryRef (Some (Ref (Some (History
           [CommitNode None ''2024-01-09T00:00:00Z'',
            CommitNode (Some ''alice'') ''2024-01-08T00:00:00Z'']
           (PageInfo False (Some ''h2''))))))),
         Data (Issues [AuthoredNode (Some ''bob'') ''2024-02-01T00:00:00Z'']
           (PageInfo False None)),
         Data (PullRequests [AuthoredNode (Some ''alice'') ''2024-03-01T00:00:00Z'']
           (PageInfo True (Some ''p1''))),
         Data (PullRequests [AuthoredNode None ''2019-05-05T00:00:00Z'']
           (PageInfo False (Some ''p2''))),
         BadStatus],
      sent = [], console = [], files = []\<rparr> =
   Some (Inr [(''alice'', ''2024-03-01T00:00:00Z''), (''bob'', ''2024-02-01T00:00:00Z'')],
     \<lparr>pending = [BadStatus],
      sent =
        [Request q_commits
           [(''owner'', Some ''acme''), (''name'', Some ''x''), (''branch'', Some ''main''),
            (''since'', Some ''2023-11-16T12:00:00+00:00''), (''cursor'', None)],
         Request q_commits
           [(''owner'', Some ''acme''), (''name'', Some ''x''), (''branch'', Some ''main''),
            (''since'', Some ''2023-11-16T12:00:00+00:00''), (''cursor'', Some ''h1'')],
         Request q_issues
           [(''owner'', Some ''acme''), (''name'', Some ''x''), (''cursor'', None)],
         Request q_prs
           [(''owner'', Some ''acme''), (''name'', Some ''x''), (''cursor'', None)],
         Request q_prs
           [(''owner'', Some ''acme''), (''name'', Some ''x''), (''cursor'', Some ''p1'')]],
      console = [], files = []\<rparr>)"
    using traversals_accumulate_all_pages
      [where w = "\<lparr>pending =
        [Data (RepositoryRef (Some (Ref (Some (History
           [CommitNode (Some ''alice'') ''2024-01-10T00:00:00Z'']
           (PageInfo True (Some ''h1''))))))),
         Data (RepositoryRef (Some (Ref (Some (History
           [CommitNode None ''2024-01-09T00:00:00Z'',
            CommitNode (Some ''alice'') ''2024-01-08T00:00:00Z'']
           (PageInfo False (Some ''h2''))))))),
         Data (Issues [AuthoredNode (Some ''bob'') ''2024-02-01T00:00:00Z'']
           (PageInfo False None)),
         Data (PullRequests [AuthoredNode (Some ''alice'') ''2024-03-01T00:00:00Z'']
           (PageInfo True (Some ''p1''))),
         Data (PullRequests [AuthoredNode None ''2019-05-05T00:00:00Z'']
           (PageInfo False (Some ''p2''))),
         BadStatus],
      sent = [], console = [], files = []\<rparr>"
         and cpages = "[([CommitNode (Some ''alice'') ''2024-01-10T00:00:00Z''], Some ''h1'')]"
         and cnodes = "[CommitNode None ''2024-01-09T00:00:00Z'',
            CommitNode (Some ''alice'') ''2024-01-08T00:00:00Z'']"
         and cc = "Some ''h2''" and ipages = "[]"
         and inodes = "[AuthoredNode (Some ''bob'') ''2024-02-01T00:00:00Z'']" and ic = None
         and ppages = "[([AuthoredNode (Some ''alice'') ''2024-03-01T00:00:00Z''], Some ''p1'')]"
         and pnodes = "[AuthoredNode None ''2019-05-05T00:00:00Z'']" and pc = "Some ''p2''"
         and rest = "[BadStatus]" and org = "''acme''" and repo = "''x''"
         and branch = "''main''" and since_iso = "''2023-11-16T12:00:00+00:00''"]
    by (simp add: keep_latest_def)
  from m r b h show ?thesis by (intro conjI)
qed

section \<open>The never-active set\<close>

text \<open>
  C3. Whatever the members and whatever the mapping a run has collected, the never-active
  set shares no login with the keys of the mapping: it holds exactly the members for which
  the mapping has no entry.
\<close>

theorem never_active_disjoint_from_activity:
  "never_active_users all_members overall_activity \<inter> set (map fst overall_activity) = {} \<and>
   (login \<in> never_active_users all_members overall_activity) =
     (login \<in> set all_members \<and> map_of overall_activity login = None)"
  by (auto simp: never_active_users_def map_of_eq_None_iff)

section \<open>A branch without commits\<close>

lemma commits_while_absent:
  "pending w = Data (RepositoryRef None) # rest \<or>
   pending w = Data (RepositoryRef (Some (Ref None))) # rest \<Longrightarrow>
   commits_while org repo branch since_iso cursor activity w =
     Some (Inr activity,
       w\<lparr>pending := rest,
         sent := sent w @
           [Request q_commits
              [(''owner'', Some org), (''name'', Some repo), (''branch'', Some branch),
               (''since'', Some since_iso), (''cursor'', cursor)]]\<rparr>)"
  by (subst commits_while.simps) (auto simp: run_query_Data)

text \<open>
  C7. When the response to a commit query has a null \<^verbatim>\<open>ref\<close>, or a \<^verbatim>\<open>ref\<close> whose
  \<^verbatim>\<open>target\<close> is null, the commit loop ends at once: it returns without an exception, with
  the mapping it was given (the empty one, as \<^const>\<open>collect_branch_activity\<close> starts it),
  after that one request; \<^const>\<open>collect_branch_activity\<close> goes on to the issues with the
  empty mapping.
\<close>

theorem absent_ref_or_target_ends_commit_traversal:
  assumes "pending w = Data (RepositoryRef None) # rest \<or>
           pending w = Data (RepositoryRef (Some (Ref None))) # rest"
  shows "commits_while org repo branch since_iso None [] w =
           Some (Inr [],
             w\<lparr>pending := rest,
               sent := sent w @
                 [Request q_commits
                    [(''owner'', Some org), (''name'', Some repo), (''branch'', Some branch),
                     (''since'', Some since_iso), (''cursor'', None)]]\<rparr>) \<and>
         commits_while org repo branch since_iso cursor activity w =
           Some (Inr activity,
             w\<lparr>pending := rest,
               sent := sent w @
                 [Request q_commits
                    [(''owner'', Some org), (''name'', Some repo), (''branch'', Some branch),
                     (''since'', Some since_iso), (''cursor'', cursor)]]\<rparr>) \<and>
         collect_branch_activity org repo branch since_iso w =
           (case issues_while org repo None []
                   (w\<lparr>pending := rest,
                      sent := sent w @
                        [Request q_commits
                           [(''owner'', Some org), (''name'', Some repo),
                            (''branch'', Some branch), (''since'', Some since_iso),
                            (''cursor'', None)]]\<rparr>) of
              None \<Rightarrow> None
            | Some (Inl e, w2) \<Rightarrow> Some (Inl e, w2)
            | Some (Inr activity, w2) \<Rightarrow> prs_while org repo None activity w2)"
  using assms
  by (simp add: commits_while_absent collect_branch_activity_def)

theorem absent_ref_or_target_ends_commit_traversal_witness:
  "commits_while ''acme'' ''x'' ''unborn'' ''2023-11-16T12:00:00+00:00'' None []
     \<lparr>pending = [Data (RepositoryRef (Some (Ref None))),
                 Data (Issues [AuthoredNode (Some ''bob'') ''2024-02-01T00:00:00Z'']
                   (PageInfo False None)),
                 Data (PullRequests [] (PageInfo False None))],
      sent = [], console = [], files = []\<rparr> =
   Some (Inr [],
     \<lparr>pending = [Data (Issues [AuthoredNode (Some ''bob'') ''2024-02-01T00:00:00Z'']
                   (PageInfo False None)),
                 Data (PullRequests [] (PageInfo False None))],
      sent = [Request q_commits
                [(''owner'', Some ''acme''), (''name'', Some ''x''),
                 (''branch'', Some ''unborn''),
                 (''since'', Some ''2023-11-16T12:00:00+00:00''), (''cursor'', None)]],
      console = [], files = []\<rparr>) \<and>
   collect_branch_activity ''acme'' ''x'' ''unborn'' ''2023-11-16T12:00:00+00:00''
     \<lparr>pending = [Data (RepositoryRef (Some (Ref None))),
                 Data (Issues [AuthoredNode (Some ''bob'') ''2024-02-01T00:00:00Z'']
                   (PageInfo False None)),
                 Data (PullRequests [] (PageInfo False None))],
      sent = [], console = [], files = []\<rparr> =
   Some (Inr [(''bob'', ''2024-02-01T00:00:00Z'')],
     \<lparr>pending = [],
      sent = [Request q_commits
                [(''owner'', Some ''acme''), (''name'', Some ''x''),
                 (''branch'', Some ''unborn''),
                 (''since'', Some ''2023-11-16T12:00:00+00:00''), (''cursor'', None)],
              Request q_issues
                [(''owner'', Some ''acme''), (''name'', Some ''x''), (''cursor'', None)],
              Request q_prs
                [(''owner'', Some ''acme''), (''name'', Some ''x''), (''cursor'', None)]],
      console = [], files = []\<rparr>)"
  using absent_ref_or_target_ends_commit_traversal
    [where w = "\<lparr>pending = [Data (RepositoryRef (Some (Ref None))),
                 Data (Issues [AuthoredNode (Some ''bob'') ''2024-02-01T00:00:00Z'']
                   (PageInfo False None)),
                 Data (PullRequests [] (PageInfo False None))],
      sent = [], console = [], files = []\<rparr>"
       and rest = "[Data (Issues [AuthoredNode (Some ''bob'') ''2024-02-01T00:00:00Z'']
                   (PageInfo False None)),
                 Data (PullRequests [] (PageInfo False None))]"
       and org = "''acme''" and repo = "''x''" and branch = "''unborn''"
       and since_iso = "''2023-11-16T12:00:00+00:00''" and cursor = None and activity = "[]"]
  by (simp add: issues_while.simps prs_while.simps run_query_def keep_latest_def)

section \<open>Errors of the query runner\<close>

text \<open>
  C4. An error of the query runner is caught when it comes from the fetch of the
  repositories (the organisation is skipped and the next one is processed), from the fetch
  of the branches or from a branch (C8, and the loop of \<^const>\<open>for_branches\<close>). It is not
  caught when it comes from the fetch of the members at line 210, which stands in no
  \<^verbatim>\<open>try\<close>: then the exception leaves \<^const>\<open>main\<close>, the organisation gets no report, and
  the organisations after it are not processed.
\<close>

theorem members_fetch_error_leaves_main:
  "(get_repositories_for_org org (print (FetchingRepos org) w) = Some (Inl e, w1) \<longrightarrow>
    main (org # orgs) clock w = for_orgs clock 1 orgs (print (SkippingOrg org e) w1)) \<and>
   (get_repositories_for_org org (print (FetchingRepos org) w) = Some (Inr repos, w1) \<and>
    for_repos org (isoformat (fst (clock 0))) (length repos) repos [] 0
      (print (TotalRepositories org (length repos)) w1) = Some (activity, w2) \<and>
    get_all_org_members_for_org org (print FetchingMembers w2) = Some (Inl e, w3) \<longrightarrow>
    main (org # orgs) clock w = Some (Inl e, w3))"
  by (simp add: main_def process_org_def)

text \<open>
  Two organisations. The first has one repository with one branch; the endpoint answers
  the query for its members with a bad status. The run ends with the exception: nothing
  is written, and the two responses for the second organisation are never asked for.
  When it is the query for the repositories that fails, the first organisation is skipped
  and the second gets its report.
\<close>

theorem members_fetch_error_leaves_main_witness:
  "map_option (\<lambda>(r, v). (r, pending v, console v, files v))
     (main [''acme'', ''beta'']
        (\<lambda>i.
          (\<lparr>year = 2024, month = 6, day = 1, hour = 0, minute = 0, second = 0, microsecond = 0\<rparr>,
           \<lparr>year = 2024, month = 8, day = 30, hour = 12, minute = 5, second = 9, microsecond = 0\<rparr>))
        \<lparr>pending =
        [Data (Repositories [''x''] (PageInfo False None)),
         Data (Refs [''main''] (PageInfo False None)),
         Data (RepositoryRef (Some (Ref (Some (History
           [CommitNode (Some ''alice'') ''2024-06-10T00:00:00Z'']
           (PageInfo False None)))))),
         Data (Issues [] (PageInfo False None)),
         Data (PullRequests [] (PageInfo False None)),
         BadStatus,
         Data (Repositories [] (PageInfo False None)),
         Data (MembersWithRole [''bob''] (PageInfo False None))],
      sent = [], console = [], files = []\<rparr>) =
   Some (Inl HTTPError,
     [Data (Repositories [] (PageInfo False None)),
      Data (MembersWithRole [''bob''] (PageInfo False None))],
     [FetchingRepos ''acme'', TotalRepositories ''acme'' 1,
      RepoProgress 1 1 ''x'', Branch ''main'', FetchingMembers],
     []) \<and>
   map_option (\<lambda>(r, v). (r, pending v, console v, files v))
     (main [''acme'', ''beta'']
        (\<lambda>i.
          (\<lparr>year = 2024, month = 6, day = 1, hour = 0, minute = 0, second = 0, microsecond = 0\<rparr>,
           \<lparr>year = 2024, month = 8, day = 30, hour = 12, minute = 5, second = 9, microsecond = 0\<rparr>))
        \<lparr>pending =
        [Errors,
         Data (Repositories [] (PageInfo False None)),
         Data (MembersWithRole [''bob''] (PageInfo False None))],
      sent = [], console = [], files = []\<rparr>) =
   Some (Inr (), [],
     [FetchingRepos ''acme'', GraphQLErrorResponse, SkippingOrg ''acme'' GraphQLError,
      FetchingRepos ''beta'', TotalRepositories ''beta'' 0, FetchingMembers,
      WritingCSV ''user_activity_report_beta_20240830_120509.csv'', DoneWith ''beta''],
     [(''user_activity_report_beta_20240830_120509.csv'',
       [[''Users'', ''Last activity'', ''active''], [''bob'', ''N/A'', ''never-active'']])])"
proof -
  let ?v = "\<lparr>pending =
        [Errors,
         Data (Repositories [] (PageInfo False None)),
         Data (MembersWithRole [''bob''] (PageInfo False None))],
      sent = [], console = [], files = []\<rparr>"
  let ?s1 = "get_repositories_for_org ''acme'' (print (FetchingRepos ''acme'') ?v)"
  have skipped: "map_option (\<lambda>(r, v). (r, pending v, console v, files v))
     (main [''acme'', ''beta'']
        (\<lambda>i.
          (\<lparr>year = 2024, month = 6, day = 1, hour = 0, minute = 0, second = 0, microsecond = 0\<rparr>,
           \<lparr>year = 2024, month = 8, day = 30, hour = 12, minute = 5, second = 9, microsecond = 0\<rparr>))
        ?v) =
   Some (Inr (), [],
     [FetchingRepos ''acme'', GraphQLErrorResponse, SkippingOrg ''acme'' GraphQLError,
      FetchingRepos ''beta'', TotalRepositories ''beta'' 0, FetchingMembers,
      WritingCSV ''user_activity_report_beta_20240830_120509.csv'', DoneWith ''beta''],
     [(''user_activity_report_beta_20240830_120509.csv'',
       [[''Users'', ''Last activity'', ''active''], [''bob'', ''N/A'', ''never-active'']])])"
    using members_fetch_error_leaves_main
      [where org = "''acme''" and orgs = "[''beta'']" and w = ?v and e = GraphQLError
         and ?w1.0 = "snd (the ?s1)"
         and clock = "(\<lambda>i.
          (\<lparr>year = 2024, month = 6, day = 1, hour = 0, minute = 0, second = 0, microsecond = 0\<rparr>,
           \<lparr>year = 2024, month = 8, day = 30, hour = 12, minute = 5, second = 9, microsecond = 0\<rparr>))"]
    by (simp add: process_org_def get_repositories_for_org_def repositories_while.simps
        get_all_org_members_for_org_def members_while.simps
        run_query_def print_def write_report_def never_active_users_def
        report_filename_def strftime_stamp_def isoformat_def eval_dates)
  let ?clock = "(\<lambda>i.
          (\<lparr>year = 2024, month = 6, day = 1, hour = 0, minute = 0, second = 0, microsecond = 0\<rparr>,
           \<lparr>year = 2024, month = 8, day = 30, hour = 12, minute = 5, second = 9, microsecond = 0\<rparr>))"
  let ?w = "\<lparr>pending =
        [Data (Repositories [''x''] (PageInfo False None)),
         Data (Refs [''main''] (PageInfo False None)),
         Data (RepositoryRef (Some (Ref (Some (History
           [CommitNode (Some ''alice'') ''2024-06-10T00:00:00Z'']
           (PageInfo False None)))))),
         Data (Issues [] (PageInfo False None)),
         Data (PullRequests [] (PageInfo False None)),
         BadStatus,
         Data (Repositories [] (PageInfo False None)),
         Data (MembersWithRole [''bob''] (PageInfo False None))],
      sent = [], console = [], files = []\<rparr>"
  let ?r1 = "get_repositories_for_org ''acme'' (print (FetchingRepos ''acme'') ?w)"
  let ?r2 = "for_repos ''acme'' (isoformat (fst (?clock 0))) 1 [''x''] [] 0
               (print (TotalRepositories ''acme'' 1) (snd (the ?r1)))"
  let ?r3 = "get_all_org_members_for_org ''acme'' (print FetchingMembers (snd (the ?r2)))"
  from members_fetch_error_leaves_main
    [where org = "''acme''" and orgs = "[''beta'']" and clock = ?clock and w = ?w
       and e = HTTPError and repos = "[''x'']" and ?w1.0 = "snd (the ?r1)"
       and activity = "fst (the ?r2)" and ?w2.0 = "snd (the ?r2)" and ?w3.0 = "snd (the ?r3)"]
    skipped
  show ?thesis
    by (simp add: get_repositories_for_org_def repositories_while.simps
        get_all_branches_def branches_while.simps
        get_all_org_members_for_org_def members_while.simps
        collect_branch_activity_def commits_while.simps issues_while.simps prs_while.simps
        run_query_def print_def rate_limit_pause_def merge_def keep_latest_def
        isoformat_def eval_dates)
qed

section \<open>Dates in the report\<close>

lemma activity_rows_all:
  "\<forall>(user, last_iso) \<in> set overall_activity. \<exists>row. activity_row since_date user last_iso = Inr row \<Longrightarrow>
   activity_rows since_date overall_activity rows =
     (Inr (), rows @ map (\<lambda>(user, last_iso). projr (activity_row since_date user last_iso))
                       overall_activity)"
  by (induction overall_activity arbitrary: rows) auto

lemma activity_rows_first_error:
  "activity_row since_date user last_iso = Inl e \<Longrightarrow>
   \<forall>(u, t) \<in> set before. \<exists>row. activity_row since_date u t = Inr row \<Longrightarrow>
   activity_rows since_date (before @ (user, last_iso) # after) rows =
     (Inl e, rows @ map (\<lambda>(u, t). projr (activity_row since_date u t)) before)"
  by (induction before arbitrary: rows) auto

lemma activity_row_parsed:
  "strptime (take 19 last_iso) = Inr dt \<Longrightarrow>
   activity_row since_date user last_iso =
     Inr [user, strftime_dmY dt, lower_str_bool (datetime_ge dt since_date)]"
  by (simp add: activity_row_def)

lemma activity_rows_parsed:
  assumes "\<forall>(user, last_iso) \<in> set overall_activity. \<exists>dt. strptime (take 19 last_iso) = Inr dt"
  shows "activity_rows since_date overall_activity rows =
     (Inr (), rows @
        map (\<lambda>(user, last_iso).
               [user, strftime_dmY (projr (strptime (take 19 last_iso))),
                lower_str_bool (datetime_ge (projr (strptime (take 19 last_iso))) since_date)])
          overall_activity)"
  using assms
proof (induction overall_activity arbitrary: rows)
  case Nil
  show ?case by simp
next
  case (Cons p rest)
  obtain user last_iso where p: "p = (user, last_iso)" by (cases p)
  from Cons.prems p obtain dt where dt: "strptime (take 19 last_iso) = Inr dt" by auto
  from Cons.prems have "\<forall>(user, last_iso) \<in> set rest. \<exists>dt. strptime (take 19 last_iso) = Inr dt"
    by simp
  from Cons.IH [OF this] show ?case
    by (simp add: p activity_row_parsed [OF dt] dt)
qed




section \<open>The cutoff and the three loops of a branch\<close>

lemma q_commits_neq: "q_issues \<noteq> q_commits" "q_prs \<noteq> q_commits"
  by (simp_all add: q_issues_def q_prs_def q_commits_def)

text \<open>One turn of each loop, by the response that is next.\<close>

lemma commits_while_step:
  "pending w = resp # rest \<Longrightarrow>
   commits_while org repo branch since_iso cursor activity w =
     (let w' = w\<lparr>pending := rest,
                 sent := sent w @
                   [Request q_commits
                      [(''owner'', Some org), (''name'', Some repo), (''branch'', Some branch),
                       (''since'', Some since_iso), (''cursor'', cursor)]]\<rparr> in
      case resp of
        BadStatus \<Rightarrow> Some (Inl HTTPError, w')
      | Errors \<Rightarrow> Some (Inl GraphQLError, print GraphQLErrorResponse w')
      | Data (RepositoryRef (Some (Ref (Some (History nodes page))))) \<Rightarrow>
          if hasNextPage page
          then commits_while org repo branch since_iso (endCursor page)
                 (fold commit_activity nodes activity) w'
          else Some (Inr (fold commit_activity nodes activity), w')
      | Data (MembersWithRole _ _) \<Rightarrow> Some (Inl KeyError, w')
      | Data (Repositories _ _) \<Rightarrow> Some (Inl KeyError, w')
      | Data _ \<Rightarrow> Some (Inr activity, w'))"
  by (subst commits_while.simps, cases resp)
    (simp_all add: run_query_def Let_def
       split: data.splits option.splits git_ref.splits history.splits)

lemma issues_while_step:
  "pending w = resp # rest \<Longrightarrow>
   issues_while org repo cursor activity w =
     (let w' = w\<lparr>pending := rest,
                 sent := sent w @
                   [Request q_issues
                      [(''owner'', Some org), (''name'', Some repo), (''cursor'', cursor)]]\<rparr> in
      case resp of
        BadStatus \<Rightarrow> Some (Inl HTTPError, w')
      | Errors \<Rightarrow> Some (Inl GraphQLError, print GraphQLErrorResponse w')
      | Data (Issues nodes page) \<Rightarrow>
          if hasNextPage page
          then issues_while org repo (endCursor page) (fold authored_activity nodes activity) w'
          else Some (Inr (fold authored_activity nodes activity), w')
      | Data _ \<Rightarrow> Some (Inl KeyError, w'))"
  by (subst issues_while.simps, cases resp)
    (simp_all add: run_query_def Let_def split: data.splits)

lemma prs_while_step:
  "pending w = resp # rest \<Longrightarrow>
   prs_while org repo cursor activity w =
     (let w' = w\<lparr>pending := rest,
                 sent := sent w @
                   [Request q_prs
                      [(''owner'', Some org), (''name'', Some repo), (''cursor'', cursor)]]\<rparr> in
      case resp of
        BadStatus \<Rightarrow> Some (Inl HTTPError, w')
      | Errors \<Rightarrow> Some (Inl GraphQLError, print GraphQLErrorResponse w')
      | Data (PullRequests nodes page) \<Rightarrow>
          if hasNextPage page
          then prs_while org repo (endCursor page) (fold authored_activity nodes activity) w'
          else Some (Inr (fold authored_activity nodes activity), w')
      | Data _ \<Rightarrow> Some (Inl KeyError, w'))"
  by (subst prs_while.simps, cases resp)
    (simp_all add: run_query_def Let_def split: data.splits)

text \<open>
  Two runs of a loop on the same responses, from worlds that differ at most in the commit
  requests they have sent, and with any two cutoffs: the same result, and again worlds
  that differ at most in the commit requests sent.
\<close>

lemma commits_while_since:
  assumes "pending w1 = ps" "pending w2 = ps" "console w1 = console w2" "files w1 = files w2"
    and "filter (\<lambda>q. query_of q \<noteq> q_commits) (sent w1) =
         filter (\<lambda>q. query_of q \<noteq> q_commits) (sent w2)"
  shows "rel_option
           (\<lambda>(r1, v1) (r2, v2). r1 = r2 \<and> pending v1 = pending v2 \<and> console v1 = console v2 \<and>
              files v1 = files v2 \<and>
              filter (\<lambda>q. query_of q \<noteq> q_commits) (sent v1) =
              filter (\<lambda>q. query_of q \<noteq> q_commits) (sent v2))
           (commits_while org repo branch s1 cursor activity w1)
           (commits_while org repo branch s2 cursor activity w2)"
  using assms
proof (induction ps arbitrary: w1 w2 cursor activity)
  case Nil
  then show ?case
    by (subst commits_while.simps, subst (2) commits_while.simps) (simp add: run_query_def)
next
  case (Cons resp ps)
  show ?case
    unfolding commits_while_step [OF Cons.prems(1)] commits_while_step [OF Cons.prems(2)] Let_def
    using Cons.prems(3-5)
    by (auto simp: print_def q_commits_neq intro!: Cons.IH
         split: response.splits data.splits option.splits git_ref.splits history.splits)
qed

lemma issues_while_since:
  assumes "pending w1 = ps" "pending w2 = ps" "console w1 = console w2" "files w1 = files w2"
    and "filter (\<lambda>q. query_of q \<noteq> q_commits) (sent w1) =
         filter (\<lambda>q. query_of q \<noteq> q_commits) (sent w2)"
  shows "rel_option
           (\<lambda>(r1, v1) (r2, v2). r1 = r2 \<and> pending v1 = pending v2 \<and> console v1 = console v2 \<and>
              files v1 = files v2 \<and>
              filter (\<lambda>q. query_of q \<noteq> q_commits) (sent v1) =
              filter (\<lambda>q. query_of q \<noteq> q_commits) (sent v2))
           (issues_while org repo cursor activity w1)
           (issues_while org repo cursor activity w2)"
  using assms
proof (induction ps arbitrary: w1 w2 cursor activity)
  case Nil
  then show ?case
    by (subst issues_while.simps, subst (2) issues_while.simps) (simp add: run_query_def)
next
  case (Cons resp ps)
  show ?case
    unfolding issues_while_step [OF Cons.prems(1)] issues_while_step [OF Cons.prems(2)] Let_def
    using Cons.prems(3-5)
    by (auto simp: print_def q_commits_neq intro!: Cons.IH
         split: response.splits data.splits)
qed

lemma prs_while_since:
  assumes "pending w1 = ps" "pending w2 = ps" "console w1 = console w2" "files w1 = files w2"
    and "filter (\<lambda>q. query_of q \<noteq> q_commits) (sent w1) =
         filter (\<lambda>q. query_of q \<noteq> q_commits) (sent w2)"
  shows "rel_option
           (\<lambda>(r1, v1) (r2, v2). r1 = r2 \<and> pending v1 = pending v2 \<and> console v1 = console v2 \<and>
              files v1 = files v2 \<and>
              filter (\<lambda>q. query_of q \<noteq> q_commits) (sent v1) =
              filter (\<lambda>q. query_of q \<noteq> q_commits) (sent v2))
           (prs_while org repo cursor activity w1)
           (prs_while org repo cursor activity w2)"
  using assms
proof (induction ps arbitrary: w1 w2 cursor activity)
  case Nil
  then show ?case
    by (subst prs_while.simps, subst (2) prs_while.simps) (simp add: run_query_def)
next
  case (Cons resp ps)
  show ?case
    unfolding prs_while_step [OF Cons.prems(1)] prs_while_step [OF Cons.prems(2)] Let_def
    using Cons.prems(3-5)
    by (auto simp: print_def q_commits_neq intro!: Cons.IH
         split: response.splits data.splits)
qed

text \<open>
  What holds of every request sent before a loop and of every request the loop can send
  holds of every request sent after it.
\<close>

lemma commits_while_requests:
  assumes "pending w = ps"
    and "commits_while org repo branch since_iso cursor activity w = Some (r, w')"
    and "list_all P (sent w)"
    and "\<And>c. P (Request q_commits
             [(''owner'', Some org), (''name'', Some repo), (''branch'', Some branch),
              (''since'', Some since_iso), (''cursor'', c)])"
  shows "list_all P (sent w')"
  using assms(1-3)
proof (induction ps arbitrary: w cursor activity)
  case Nil
  then show ?case
    by (subst (asm) commits_while.simps) (simp add: run_query_def)
next
  case (Cons resp ps)
  from Cons.prems(2,3) assms(4) show ?case
    unfolding commits_while_step [OF Cons.prems(1)] Let_def
    by (auto simp: print_def elim!: Cons.IH [rotated]
         split: response.splits data.splits option.splits git_ref.splits history.splits if_splits)
qed

lemma issues_while_requests:
  assumes "pending w = ps"
    and "issues_while org repo cursor activity w = Some (r, w')"
    and "list_all P (sent w)"
    and "\<And>c. P (Request q_issues
             [(''owner'', Some org), (''name'', Some repo), (''cursor'', c)])"
  shows "list_all P (sent w')"
  using assms(1-3)
proof (induction ps arbitrary: w cursor activity)
  case Nil
  then show ?case
    by (subst (asm) issues_while.simps) (simp add: run_query_def)
next
  case (Cons resp ps)
  from Cons.prems(2,3) assms(4) show ?case
    unfolding issues_while_step [OF Cons.prems(1)] Let_def
    by (auto simp: print_def elim!: Cons.IH [rotated]
         split: response.splits data.splits if_splits)
qed

lemma prs_while_requests:
  assumes "pending w = ps"
    and "prs_while org repo cursor activity w = Some (r, w')"
    and "list_all P (sent w)"
    and "\<And>c. P (Request q_prs
             [(''owner'', Some org), (''name'', Some repo), (''cursor'', c)])"
  shows "list_all P (sent w')"
  using assms(1-3)
proof (induction ps arbitrary: w cursor activity)
  case Nil
  then show ?case
    by (subst (asm) prs_while.simps) (simp add: run_query_def)
next
  case (Cons resp ps)
  from Cons.prems(2,3) assms(4) show ?case
    unfolding prs_while_step [OF Cons.prems(1)] Let_def
    by (auto simp: print_def elim!: Cons.IH [rotated]
         split: response.splits data.splits if_splits)
qed

text \<open>
  The three loops in a row: a run with another cutoff differs in the requests of the
  commit history and in nothing else, and every request a run sends has one of three
  shapes.
\<close>

lemma collect_branch_activity_since:
  "rel_option
     (\<lambda>(r1, v1) (r2, v2). r1 = r2 \<and> pending v1 = pending v2 \<and> console v1 = console v2 \<and>
        files v1 = files v2 \<and>
        filter (\<lambda>q. query_of q \<noteq> q_commits) (sent v1) =
        filter (\<lambda>q. query_of q \<noteq> q_commits) (sent v2))
     (collect_branch_activity org repo branch s1 w)
     (collect_branch_activity org repo branch s2 w)"
proof -
  let ?R = "\<lambda>(r1, v1) (r2, v2). r1 = r2 \<and> pending v1 = pending v2 \<and> console v1 = console v2 \<and>
        files v1 = files v2 \<and>
        filter (\<lambda>q. query_of q \<noteq> q_commits) (sent v1) =
        filter (\<lambda>q. query_of q \<noteq> q_commits) (sent v2)"
  have c: "rel_option ?R (commits_while org repo branch s1 None [] w)
                         (commits_while org repo branch s2 None [] w)"
    by (rule commits_while_since [where ps = "pending w"]) simp_all
  show ?thesis
  proof (cases "commits_while org repo branch s1 None [] w")
    case None
    with c show ?thesis by (simp add: collect_branch_activity_def)
  next
    case (Some x1)
    obtain r1 v1 where x1: "x1 = (r1, v1)" by (cases x1)
    from c Some x1 obtain v2 where
      c1: "commits_while org repo branch s1 None [] w = Some (r1, v1)" and
      c2: "commits_while org repo branch s2 None [] w = Some (r1, v2)" and
      same: "pending v1 = pending v2" "console v1 = console v2" "files v1 = files v2"
        "filter (\<lambda>q. query_of q \<noteq> q_commits) (sent v1) =
         filter (\<lambda>q. query_of q \<noteq> q_commits) (sent v2)"
      by (cases "commits_while org repo branch s2 None [] w") auto
    show ?thesis
    proof (cases r1)
      case (Inl e)
      with c1 c2 same show ?thesis by (simp add: collect_branch_activity_def)
    next
      case (Inr a)
      have i: "rel_option ?R (issues_while org repo None a v1) (issues_while org repo None a v2)"
        by (rule issues_while_since [where ps = "pending v1"]) (simp_all add: same)
      show ?thesis
      proof (cases "issues_while org repo None a v1")
        case None
        with i c1 c2 Inr show ?thesis by (simp add: collect_branch_activity_def)
      next
        case (Some y1)
        obtain q1 u1 where y1: "y1 = (q1, u1)" by (cases y1)
        from i Some y1 obtain u2 where
          i1: "issues_while org repo None a v1 = Some (q1, u1)" and
          i2: "issues_while org repo None a v2 = Some (q1, u2)" and
          same2: "pending u1 = pending u2" "console u1 = console u2" "files u1 = files u2"
            "filter (\<lambda>q. query_of q \<noteq> q_commits) (sent u1) =
             filter (\<lambda>q. query_of q \<noteq> q_commits) (sent u2)"
          by (cases "issues_while org repo None a v2") auto
        show ?thesis
        proof (cases q1)
          case (Inl e)
          with c1 c2 Inr i1 i2 same2 show ?thesis by (simp add: collect_branch_activity_def)
        next
          case (Inr b)
          have "rel_option ?R (prs_while org repo None b u1) (prs_while org repo None b u2)"
            by (rule prs_while_since [where ps = "pending u1"]) (simp_all add: same2)
          with c1 c2 \<open>r1 = Inr a\<close> i1 i2 Inr show ?thesis
            by (simp add: collect_branch_activity_def)
        qed
      qed
    qed
  qed
qed

lemma collect_branch_activity_requests:
  assumes "collect_branch_activity org repo branch since_iso w = Some (r, w')"
    and "list_all P (sent w)"
    and "\<And>c. P (Request q_commits
             [(''owner'', Some org), (''name'', Some repo), (''branch'', Some branch),
              (''since'', Some since_iso), (''cursor'', c)])"
    and "\<And>c. P (Request q_issues
             [(''owner'', Some org), (''name'', Some repo), (''cursor'', c)])"
    and "\<And>c. P (Request q_prs
             [(''owner'', Some org), (''name'', Some repo), (''cursor'', c)])"
  shows "list_all P (sent w')"
proof -
  from assms(1) obtain r1 v1 where
    c: "commits_while org repo branch since_iso None [] w = Some (r1, v1)"
    by (auto simp: collect_branch_activity_def split: option.splits)
  have P1: "list_all P (sent v1)"
    using refl c assms(2,3) by (rule commits_while_requests)
  show ?thesis
  proof (cases r1)
    case (Inl e)
    with assms(1) c P1 show ?thesis by (simp add: collect_branch_activity_def)
  next
    case (Inr a)
    with assms(1) c obtain r2 v2 where i: "issues_while org repo None a v1 = Some (r2, v2)"
      by (auto simp: collect_branch_activity_def split: option.splits)
    have P2: "list_all P (sent v2)"
      using refl i P1 assms(4) by (rule issues_while_requests)
    show ?thesis
    proof (cases r2)
      case (Inl e)
      with assms(1) c i Inr P2 show ?thesis by (simp add: collect_branch_activity_def)
    next
      case (Inr b)
      with assms(1) c i \<open>r1 = Inr a\<close> have "prs_while org repo None b v2 = Some (r, w')"
        by (simp add: collect_branch_activity_def)
      with refl show ?thesis using P2 assms(5) by (rule prs_while_requests)
    qed
  qed
qed

lemma query_texts:
  "sublist ''history(first: 100, after: $cursor, since: $since)'' q_commits"
  "sublist ''issues(first: 100, after: $cursor, orderBy: {field: UPDATED_AT, direction: DESC})'' q_issues"
  "\<not> sublist ''since'' q_issues"
  "sublist ''pullRequests(states: [OPEN, CLOSED, MERGED], orderBy: {field: UPDATED_AT, direction: DESC}, first: 100, after: $cursor)'' q_prs"
  "\<not> sublist ''since'' q_prs"
  unfolding q_commits_def q_issues_def q_prs_def by code_simp+

text \<open>
  C6. The cutoff goes to the server in the requests of the commit history, as the variable
  \<^verbatim>\<open>since\<close> of a query that hands it to \<^verbatim>\<open>history\<close>, and nowhere else: the queries for
  issues and for pull requests do not contain the word, and their requests carry no such
  variable. Two runs that differ in the cutoff only, on the same responses, differ in the
  commit requests only. The loops over issues and over pull requests ask for the order
  \<^verbatim>\<open>UPDATED_AT\<close>, \<^verbatim>\<open>DESC\<close>, go through all the pages up to the first whose
  \<^verbatim>\<open>hasNextPage\<close> is false, and take every node of every page into the mapping, whatever
  its \<^verbatim>\<open>updatedAt\<close> and whatever the cutoff.
\<close>

theorem since_bounds_only_commit_history:
  "(pending w =
      map (\<lambda>p. Data (RepositoryRef (Some (Ref (Some
            (History (fst p) (PageInfo True (snd p)))))))) cpages @
      Data (RepositoryRef (Some (Ref (Some (History cnodes (PageInfo False cc)))))) #
      map (\<lambda>p. Data (Issues (fst p) (PageInfo True (snd p)))) ipages @
      Data (Issues inodes (PageInfo False ic)) #
      map (\<lambda>p. Data (PullRequests (fst p) (PageInfo True (snd p)))) ppages @
      Data (PullRequests pnodes (PageInfo False pc)) # rest \<longrightarrow>
    collect_branch_activity org repo branch since_iso w =
      Some (Inr (fold authored_activity (concat (map fst ppages) @ pnodes)
                  (fold authored_activity (concat (map fst ipages) @ inodes)
                    (fold commit_activity (concat (map fst cpages) @ cnodes) []))),
        w\<lparr>pending := rest,
          sent := sent w @
            map (\<lambda>cur. Request q_commits
                  [(''owner'', Some org), (''name'', Some repo), (''branch'', Some branch),
                   (''since'', Some since_iso), (''cursor'', cur)])
              (None # map snd cpages) @
            map (\<lambda>cur. Request q_issues
                  [(''owner'', Some org), (''name'', Some repo), (''cursor'', cur)])
              (None # map snd ipages) @
            map (\<lambda>cur. Request q_prs
                  [(''owner'', Some org), (''name'', Some repo), (''cursor'', cur)])
              (None # map snd ppages)\<rparr>)) \<and>
   (collect_branch_activity org repo branch since_iso w = Some (r, w') \<longrightarrow>
    list_all
      (\<lambda>q. q \<in> set (sent w) \<or>
           query_of q = q_commits \<and> map_of (variables_of q) ''since'' = Some (Some since_iso) \<or>
           (query_of q = q_issues \<or> query_of q = q_prs) \<and>
             map_of (variables_of q) ''since'' = None)
      (sent w')) \<and>
   rel_option
     (\<lambda>(r1, v1) (r2, v2). r1 = r2 \<and> pending v1 = pending v2 \<and> console v1 = console v2 \<and>
        files v1 = files v2 \<and>
        filter (\<lambda>q. query_of q \<noteq> q_commits) (sent v1) =
        filter (\<lambda>q. query_of q \<noteq> q_commits) (sent v2))
     (collect_branch_activity org repo branch since1 w)
     (collect_branch_activity org repo branch since2 w) \<and>
   sublist ''history(first: 100, after: $cursor, since: $since)'' q_commits \<and>
   sublist ''issues(first: 100, after: $cursor, orderBy: {field: UPDATED_AT, direction: DESC})''
     q_issues \<and>
   sublist ''pullRequests(states: [OPEN, CLOSED, MERGED], orderBy: {field: UPDATED_AT, direction: DESC}, first: 100, after: $cursor)''
     q_prs \<and>
   \<not> sublist ''since'' q_issues \<and> \<not> sublist ''since'' q_prs \<and>
   q_issues \<noteq> q_commits \<and> q_prs \<noteq> q_commits"
proof (intro conjI impI)
  assume "pending w =
      map (\<lambda>p. Data (RepositoryRef (Some (Ref (Some
            (History (fst p) (PageInfo True (snd p)))))))) cpages @
      Data (RepositoryRef (Some (Ref (Some (History cnodes (PageInfo False cc)))))) #
      map (\<lambda>p. Data (Issues (fst p) (PageInfo True (snd p)))) ipages @
      Data (Issues inodes (PageInfo False ic)) #
      map (\<lambda>p. Data (PullRequests (fst p) (PageInfo True (snd p)))) ppages @
      Data (PullRequests pnodes (PageInfo False pc)) # rest"
  then show "collect_branch_activity org repo branch since_iso w =
      Some (Inr (fold authored_activity (concat (map fst ppages) @ pnodes)
                  (fold authored_activity (concat (map fst ipages) @ inodes)
                    (fold commit_activity (concat (map fst cpages) @ cnodes) []))),
        w\<lparr>pending := rest,
          sent := sent w @
            map (\<lambda>cur. Request q_commits
                  [(''owner'', Some org), (''name'', Some repo), (''branch'', Some branch),
                   (''since'', Some since_iso), (''cursor'', cur)])
              (None # map snd cpages) @
            map (\<lambda>cur. Request q_issues
                  [(''owner'', Some org), (''name'', Some repo), (''cursor'', cur)])
              (None # map snd ipages) @
            map (\<lambda>cur. Request q_prs
                  [(''owner'', Some org), (''name'', Some repo), (''cursor'', cur)])
              (None # map snd ppages)\<rparr>)"
    by (rule collect_branch_activity_pages)
next
  assume run: "collect_branch_activity org repo branch since_iso w = Some (r, w')"
  let ?P = "\<lambda>q. q \<in> set (sent w) \<or>
           query_of q = q_commits \<and> map_of (variables_of q) ''since'' = Some (Some since_iso) \<or>
           (query_of q = q_issues \<or> query_of q = q_prs) \<and>
             map_of (variables_of q) ''since'' = None"
  have "list_all ?P (sent w)" by (simp add: list_all_iff)
  with run show "list_all ?P (sent w')"
    by (rule collect_branch_activity_requests) simp_all
next
  show "rel_option
     (\<lambda>(r1, v1) (r2, v2). r1 = r2 \<and> pending v1 = pending v2 \<and> console v1 = console v2 \<and>
        files v1 = files v2 \<and>
        filter (\<lambda>q. query_of q \<noteq> q_commits) (sent v1) =
        filter (\<lambda>q. query_of q \<noteq> q_commits) (sent v2))
     (collect_branch_activity org repo branch since1 w)
     (collect_branch_activity org repo branch since2 w)"
    by (rule collect_branch_activity_since)
qed (rule query_texts q_commits_neq)+

text \<open>
  A branch with one page of commits, two of issues and one of pull requests. The cutoff is
  in June 2024; the issues and the pull request were last updated years before, and their
  authors are in the mapping all the same.
\<close>

theorem since_bounds_only_commit_history_witness:
  "collect_branch_activity ''acme'' ''x'' ''main'' ''2024-06-01T00:00:00+00:00''
     \<lparr>pending =
        [Data (RepositoryRef (Some (Ref (Some (History
           [CommitNode (Some ''alice'') ''2024-06-10T00:00:00Z'']
           (PageInfo False None)))))),
         Data (Issues [AuthoredNode (Some ''bob'') ''2019-01-01T00:00:00Z'']
           (PageInfo True (Some ''i1''))),
         Data (Issues [AuthoredNode (Some ''carol'') ''2018-01-01T00:00:00Z'']
           (PageInfo False None)),
         Data (PullRequests [AuthoredNode (Some ''dave'') ''2017-01-01T00:00:00Z'']
           (PageInfo False None)),
         BadStatus],
      sent = [], console = [], files = []\<rparr> =
   Some (Inr [(''alice'', ''2024-06-10T00:00:00Z''), (''bob'', ''2019-01-01T00:00:00Z''),
              (''carol'', ''2018-01-01T00:00:00Z''), (''dave'', ''2017-01-01T00:00:00Z'')],
     \<lparr>pending = [BadStatus],
      sent =
        [Request q_commits
           [(''owner'', Some ''acme''), (''name'', Some ''x''), (''branch'', Some ''main''),
            (''since'', Some ''2024-06-01T00:00:00+00:00''), (''cursor'', None)],
         Request q_issues
           [(''owner'', Some ''acme''), (''name'', Some ''x''), (''cursor'', None)],
         Request q_issues
           [(''owner'', Some ''acme''), (''name'', Some ''x''), (''cursor'', Some ''i1'')],
         Request q_prs
           [(''owner'', Some ''acme''), (''name'', Some ''x''), (''cursor'', None)]],
      console = [], files = []\<rparr>)"
  using since_bounds_only_commit_history
    [where w = "\<lparr>pending =
        [Data (RepositoryRef (Some (Ref (Some (History
           [CommitNode (Some ''alice'') ''2024-06-10T00:00:00Z'']
           (PageInfo False None)))))),
         Data (Issues [AuthoredNode (Some ''bob'') ''2019-01-01T00:00:00Z'']
           (PageInfo True (Some ''i1''))),
         Data (Issues [AuthoredNode (Some ''carol'') ''2018-01-01T00:00:00Z'']
           (PageInfo False None)),
         Data (PullRequests [AuthoredNode (Some ''dave'') ''2017-01-01T00:00:00Z'']
           (PageInfo False None)),
         BadStatus],
      sent = [], console = [], files = []\<rparr>"
      and cpages = "[]" and cnodes = "[CommitNode (Some ''alice'') ''2024-06-10T00:00:00Z'']"
      and cc = None
      and ipages = "[([AuthoredNode (Some ''bob'') ''2019-01-01T00:00:00Z''], Some ''i1'')]"
      and inodes = "[AuthoredNode (Some ''carol'') ''2018-01-01T00:00:00Z'']" and ic = None
      and ppages = "[]" and pnodes = "[AuthoredNode (Some ''dave'') ''2017-01-01T00:00:00Z'']"
      and pc = None and rest = "[BadStatus]"
      and org = "''acme''" and repo = "''x''" and branch = "''main''"
      and since_iso = "''2024-06-01T00:00:00+00:00''"]
  by (simp add: keep_latest_def)

section \<open>A repository whose branches cannot be fetched\<close>

text \<open>The loop over the repositories, on a list in two parts.\<close>

lemma for_repos_append:
  "for_repos org since_iso len (pre @ post) overall_activity n w =
     (case for_repos org since_iso len pre overall_activity n w of
        None \<Rightarrow> None
      | Some (activity1, w1) \<Rightarrow> for_repos org since_iso len post activity1 (n + length pre) w1)"
  by (induction pre arbitrary: overall_activity n w)
    (simp_all split: option.splits sum.splits prod.splits)

text \<open>
  C8. When \<^const>\<open>get_all_branches\<close> raises for a repository, wherever it stands in the
  list, the loop goes on with the repositories after it: with the mapping gathered from
  the repositories before it, the counter one higher, and one more line on the console.
  And once the loop over the repositories has come to its end, with a members list
  fetched and timestamps that parse, the organisation's report is written: the header,
  the rows of the mapping and the rows of the never-active members.
\<close>

theorem branch_fetch_failure_skips_the_repository:
  "(for_repos org since_iso len pre overall_activity n w = Some (activity1, w1) \<and>
    get_all_branches repo org (print (RepoProgress (n + length pre + 1) len repo) w1) =
      Some (Inl e, w2) \<longrightarrow>
    for_repos org since_iso len (pre @ repo # post) overall_activity n w =
      for_repos org since_iso len post activity1 (n + length pre + 1)
        (rate_limit_pause (n + length pre + 1) (print (ErrorOnRepo repo e) w2))) \<and>
   (get_repositories_for_org org (print (FetchingRepos org) u) = Some (Inr repos, u1) \<and>
    for_repos org (isoformat since_date) (length repos) repos [] 0
      (print (TotalRepositories org (length repos)) u1) = Some (activity, u2) \<and>
    get_all_org_members_for_org org (print FetchingMembers u2) = Some (Inr all_members, u3) \<and>
    (\<forall>(user, last_iso) \<in> set activity. \<exists>dt. strptime (take 19 last_iso) = Inr dt) \<longrightarrow>
    process_org since_date now org u =
      Some (Inr (),
        u3\<lparr>console := console u3 @ [WritingCSV (report_filename org now), DoneWith org],
           files := AList.update (report_filename org now)
             ([''Users'', ''Last activity'', ''active''] #
              map (\<lambda>(user, last_iso).
                     [user, strftime_dmY (projr (strptime (take 19 last_iso))),
                      lower_str_bool
                        (datetime_ge (projr (strptime (take 19 last_iso))) since_date)])
                activity @
              map (\<lambda>user. [user, ''N/A'', ''never-active''])
                (sorted_list_of_set (never_active_users all_members activity)))
             (files u3)\<rparr>))"
proof (intro conjI impI)
  assume "for_repos org since_iso len pre overall_activity n w = Some (activity1, w1) \<and>
    get_all_branches repo org (print (RepoProgress (n + length pre + 1) len repo) w1) =
      Some (Inl e, w2)"
  then show "for_repos org since_iso len (pre @ repo # post) overall_activity n w =
      for_repos org since_iso len post activity1 (n + length pre + 1)
        (rate_limit_pause (n + length pre + 1) (print (ErrorOnRepo repo e) w2))"
    by (simp add: for_repos_append)
next
  assume a: "get_repositories_for_org org (print (FetchingRepos org) u) = Some (Inr repos, u1) \<and>
    for_repos org (isoformat since_date) (length repos) repos [] 0
      (print (TotalRepositories org (length repos)) u1) = Some (activity, u2) \<and>
    get_all_org_members_for_org org (print FetchingMembers u2) = Some (Inr all_members, u3) \<and>
    (\<forall>(user, last_iso) \<in> set activity. \<exists>dt. strptime (take 19 last_iso) = Inr dt)"
  then have rows: "\<forall>(user, last_iso) \<in> set activity. \<exists>dt. strptime (take 19 last_iso) = Inr dt"
    by (elim conjE)
  from a show "process_org since_date now org u =
      Some (Inr (),
        u3\<lparr>console := console u3 @ [WritingCSV (report_filename org now), DoneWith org],
           files := AList.update (report_filename org now)
             ([''Users'', ''Last activity'', ''active''] #
              map (\<lambda>(user, last_iso).
                     [user, strftime_dmY (projr (strptime (take 19 last_iso))),
                      lower_str_bool
                        (datetime_ge (projr (strptime (take 19 last_iso))) since_date)])
                activity @
              map (\<lambda>user. [user, ''N/A'', ''never-active''])
                (sorted_list_of_set (never_active_users all_members activity)))
             (files u3)\<rparr>)"
    by (simp add: process_org_def write_report_def activity_rows_parsed [OF rows] print_def)
qed

text \<open>
  An organisation with three repositories. The branches of the second cannot be fetched;
  the third is processed all the same, and the report has the authors found in the first
  and in the third.
\<close>

theorem branch_fetch_failure_skips_the_repository_witness:
  "map_option (\<lambda>(r, v). (r, pending v, console v, files v))
     (process_org
        \<lparr>year = 2024, month = 6, day = 1, hour = 0, minute = 0, second = 0, microsecond = 0\<rparr>
        \<lparr>year = 2024, month = 8, day = 30, hour = 12, minute = 5, second = 9, microsecond = 0\<rparr>
        ''acme''
        \<lparr>pending =
        [Data (Repositories [''x'', ''y'', ''z''] (PageInfo False None)),
         Data (Refs [''main''] (PageInfo False None)),
         Data (RepositoryRef (Some (Ref (Some (History
           [CommitNode (Some ''alice'') ''2024-06-10T00:00:00Z'']
           (PageInfo False None)))))),
         Data (Issues [] (PageInfo False None)),
         Data (PullRequests [] (PageInfo False None)),
         BadStatus,
         Data (Refs [''dev''] (PageInfo False None)),
         Data (RepositoryRef None),
         Data (Issues [AuthoredNode (Some ''bob'') ''2019-01-01T00:00:00Z'']
           (PageInfo False None)),
         Data (PullRequests [] (PageInfo False None)),
         Data (MembersWithRole [''carol'', ''bob'', ''alice'', ''aaron'']
           (PageInfo False None))],
      sent = [], console = [], files = []\<rparr>) =
   Some (Inr (), [],
     [FetchingRepos ''acme'', TotalRepositories ''acme'' 3,
      RepoProgress 1 3 ''x'', Branch ''main'',
      RepoProgress 2 3 ''y'', ErrorOnRepo ''y'' HTTPError,
      RepoProgress 3 3 ''z'', Branch ''dev'',
      FetchingMembers,
      WritingCSV ''user_activity_report_acme_20240830_120509.csv'',
      DoneWith ''acme''],
     [(''user_activity_report_acme_20240830_120509.csv'',
       [[''Users'', ''Last activity'', ''active''],
        [''alice'', ''10-06-2024'', ''true''],
        [''bob'', ''01-01-2019'', ''false''],
        [''aaron'', ''N/A'', ''never-active''],
        [''carol'', ''N/A'', ''never-active'']])])"
proof -
  let ?since = "\<lparr>year = 2024, month = 6, day = 1, hour = 0, minute = 0, second = 0, microsecond = 0\<rparr>"
  let ?now = "\<lparr>year = 2024, month = 8, day = 30, hour = 12, minute = 5, second = 9, microsecond = 0\<rparr>"
  let ?u = "\<lparr>pending =
        [Data (Repositories [''x'', ''y'', ''z''] (PageInfo False None)),
         Data (Refs [''main''] (PageInfo False None)),
         Data (RepositoryRef (Some (Ref (Some (History
           [CommitNode (Some ''alice'') ''2024-06-10T00:00:00Z'']
           (PageInfo False None)))))),
         Data (Issues [] (PageInfo False None)),
         Data (PullRequests [] (PageInfo False None)),
         BadStatus,
         Data (Refs [''dev''] (PageInfo False None)),
         Data (RepositoryRef None),
         Data (Issues [AuthoredNode (Some ''bob'') ''2019-01-01T00:00:00Z'']
           (PageInfo False None)),
         Data (PullRequests [] (PageInfo False None)),
         Data (MembersWithRole [''carol'', ''bob'', ''alice'', ''aaron'']
           (PageInfo False None))],
      sent = [], console = [], files = []\<rparr>"
  let ?r1 = "get_repositories_for_org ''acme'' (print (FetchingRepos ''acme'') ?u)"
  let ?w = "print (TotalRepositories ''acme'' 3) (snd (the ?r1))"
  let ?r2 = "for_repos ''acme'' (isoformat ?since) 3 [''x'', ''y'', ''z''] [] 0 ?w"
  let ?r3 = "get_all_org_members_for_org ''acme'' (print FetchingMembers (snd (the ?r2)))"
  let ?p1 = "for_repos ''acme'' (isoformat ?since) 3 [''x''] [] 0 ?w"
  let ?p2 = "get_all_branches ''y'' ''acme'' (print (RepoProgress 2 3 ''y'') (snd (the ?p1)))"
  have "{''carol'', ''bob'', ''alice'', ''aaron''} - {''alice'', ''bob''} = set [''carol'', ''aaron'']"
    by auto
  then have never:
    "sorted_list_of_set ({''carol'', ''bob'', ''alice'', ''aaron''} - {''alice'', ''bob''}) =
       [''aaron'', ''carol'']"
    by (simp only: sorted_list_of_set_sort_remdups) simp
  from branch_fetch_failure_skips_the_repository
    [where org = "''acme''" and since_iso = "isoformat ?since" and len = 3
       and pre = "[''x'']" and repo = "''y''" and post = "[''z'']"
       and overall_activity = "[]" and n = 0 and w = ?w
       and ?activity1.0 = "fst (the ?p1)" and ?w1.0 = "snd (the ?p1)"
       and e = HTTPError and ?w2.0 = "snd (the ?p2)"
       and u = ?u and repos = "[''x'', ''y'', ''z'']" and ?u1.0 = "snd (the ?r1)"
       and since_date = ?since and now = ?now
       and activity = "fst (the ?r2)" and ?u2.0 = "snd (the ?r2)"
       and all_members = "[''carol'', ''bob'', ''alice'', ''aaron'']" and ?u3.0 = "snd (the ?r3)"]
  show ?thesis
    by (simp add: get_repositories_for_org_def repositories_while.simps
        get_all_branches_def branches_while.simps
        get_all_org_members_for_org_def members_while.simps
        collect_branch_activity_def commits_while.simps issues_while.simps prs_while.simps
        run_query_def print_def rate_limit_pause_def merge_def keep_latest_def
        never_active_users_def report_filename_def strftime_stamp_def isoformat_def
        eval_dates never)
qed

section \<open>No organisation configured\<close>

text \<open>
  C9. With an empty list of organisations \<^const>\<open>main\<close> prints its complaint and returns:
  no request is sent, no response is read, no file is written.
\<close>

theorem no_organizations_early_return:
  "main [] clock w = Some (Inr (), print PleaseSetOrgNames w) \<and>
   console (print PleaseSetOrgNames w) = console w @ [PleaseSetOrgNames] \<and>
   sent (print PleaseSetOrgNames w) = sent w \<and>
   pending (print PleaseSetOrgNames w) = pending w \<and>
   files (print PleaseSetOrgNames w) = files w"
  by (simp add: main_def print_def)

section \<open>Offsets in timestamps\<close>

text \<open>
  C10. The report reads the first 19 characters of a timestamp and nothing of what
  follows: whatever the offset written after them, the row is the row of the same 19
  characters followed by \<open>Z\<close>, so the wall-clock time is compared with the cutoff as if it
  were a time in UTC.
\<close>

theorem classification_reads_wall_clock_as_utc:
  assumes "length wall = 19"
  shows "activity_row since_date user (wall @ zone) = activity_row since_date user (wall @ ''Z'') \<and>
         activity_row since_date user (wall @ zone) =
           (case strptime wall of
              Inl e \<Rightarrow> Inl e
            | Inr dt \<Rightarrow> Inr [user, strftime_dmY dt, lower_str_bool (datetime_ge dt since_date)])"
  using assms by (simp add: activity_row_def)

theorem classification_reads_wall_clock_as_utc_witness:
  "length ''2024-01-10T23:30:00'' = 19 \<and>
   activity_row
     \<lparr>year = 2024, month = 1, day = 10, hour = 20, minute = 0, second = 0, microsecond = 0\<rparr>
     ''dev'' (''2024-01-10T23:30:00'' @ ''+05:00'') = Inr [''dev'', ''10-01-2024'', ''true''] \<and>
   activity_row
     \<lparr>year = 2024, month = 1, day = 10, hour = 20, minute = 0, second = 0, microsecond = 0\<rparr>
     ''dev'' (''2024-01-10T23:30:00'' @ ''Z'') = Inr [''dev'', ''10-01-2024'', ''true''] \<and>
   activity_row
     \<lparr>year = 2024, month = 1, day = 10, hour = 20, minute = 0, second = 0, microsecond = 0\<rparr>
     ''dev'' ''2024-01-10T18:30:00Z'' = Inr [''dev'', ''10-01-2024'', ''false'']"
  using classification_reads_wall_clock_as_utc
    [of "''2024-01-10T23:30:00''"
        "\<lparr>year = 2024, month = 1, day = 10, hour = 20, minute = 0, second = 0, microsecond = 0\<rparr>"
        "''dev''" "''+05:00''"]
  by (simp add: activity_row_def eval_dates)

end
